theory Spec2Isabelle
  imports Main "HOL-Library.Sublist"
begin

section \<open>Exceptions\<close>

text \<open>
  The exceptions (all subclasses of Python's \<^verbatim>\<open>Exception\<close>) that occur in the scraper.
  \<^verbatim>\<open>ExternalError\<close> stands for whatever a browser or file-system call raises, the
  browser driver's own timeout included; \<^verbatim>\<open>TimeoutError\<close> is Python's built-in class
  of that name.
\<close>

datatype exn =
    ValueError string
  | IndexError
  | UnboundLocalError string
  | TimeoutError
  | ExternalError string

text \<open>Sequencing of computations that may raise.\<close>

definition or_raise :: "exn + 'a \<Rightarrow> ('a \<Rightarrow> exn + 'b) \<Rightarrow> exn + 'b" where
  "or_raise r f = (case r of Inl e \<Rightarrow> Inl e | Inr x \<Rightarrow> f x)"

section \<open>Strings and patterns\<close>

text \<open>
  Python strings are modelled as \<^typ>\<open>string\<close>.  All separators, prefixes and
  character classes used by the scraper are ASCII, so a character outside ASCII never
  matches any of them.
\<close>

subsection \<open>String methods\<close>

text \<open>
  \<^verbatim>\<open>s.split(sep)\<close> for a non-empty separator: the subject is scanned from the left and
  cut at every occurrence of \<open>sep\<close>; \<open>cur\<close> collects the piece being read.  (The
  scraper only splits at the literals \<^verbatim>\<open>'/@'\<close>, \<^verbatim>\<open>'/'\<close> and \<^verbatim>\<open>','\<close>; Python rejects
  an empty separator.)
\<close>

function split_from :: "string \<Rightarrow> string \<Rightarrow> string \<Rightarrow> string list" where
  "split_from sep cur [] = [cur]"
| "split_from sep cur (c # cs) =
     (if sep \<noteq> [] \<and> prefix sep (c # cs)
      then cur # split_from sep [] (drop (length sep) (c # cs))
      else split_from sep (cur @ [c]) cs)"
  by pat_completeness auto
termination
  by (relation "measure (\<lambda>(sep, cur, s). length s)") (auto simp: neq_Nil_conv)

definition split :: "string \<Rightarrow> string \<Rightarrow> string list" where
  "split sep s = split_from sep [] s"

text \<open>\<^verbatim>\<open>xs[i]\<close>: a negative index counts from the end, an index out of range raises.\<close>

definition index :: "'a list \<Rightarrow> int \<Rightarrow> exn + 'a" where
  "index xs i =
     (if 0 \<le> i \<and> i < int (length xs) then Inr (xs ! nat i)
      else if i < 0 \<and> - i \<le> int (length xs) then Inr (xs ! nat (int (length xs) + i))
      else Inl IndexError)"

text \<open>\<^verbatim>\<open>xs[:n]\<close>.\<close>

definition slice_to :: "int \<Rightarrow> 'a list \<Rightarrow> 'a list" where
  "slice_to n xs =
     (if 0 \<le> n then take (nat n) xs else take (length xs - nat (- n)) xs)"

text \<open>\<^verbatim>\<open>s.startswith((p1, p2, ...))\<close>, \<^verbatim>\<open>s.rstrip('/')\<close>, \<^verbatim>\<open>s.replace(" ", "_")\<close>.\<close>

definition startswith :: "string \<Rightarrow> string list \<Rightarrow> bool" where
  "startswith s ps \<longleftrightarrow> list_ex (\<lambda>p. prefix p s) ps"

definition rstrip_slash :: "string \<Rightarrow> string" where
  "rstrip_slash s = rev (dropWhile (\<lambda>c. c = CHR ''/'') (rev s))"

definition replace_space :: "string \<Rightarrow> string" where
  "replace_space s = map (\<lambda>c. if c = CHR '' '' then CHR ''_'' else c) s"

subsection \<open>The fragment of Python's \<^verbatim>\<open>re\<close> used by the scraper\<close>

text \<open>
  \<^verbatim>\<open>Lit s\<close> is a literal text, \<^verbatim>\<open>Cls cs\<close> one character of a bracket expression
  (given by the characters it contains), \<^verbatim>\<open>Plus cs\<close> is \<^verbatim>\<open>[cs]+\<close>,
  \<^verbatim>\<open>AtLeast n cs\<close> is \<^verbatim>\<open>[cs]{n,}\<close>; \<^verbatim>\<open>Alt\<close>, \<^verbatim>\<open>Seq\<close> and \<^verbatim>\<open>Opt\<close> are
  \<^verbatim>\<open>a|b\<close>, \<^verbatim>\<open>ab\<close> and \<^verbatim>\<open>(a)?\<close>.
\<close>

datatype regex =
    Lit string
  | Cls "char list"
  | Plus "char list"
  | AtLeast nat "char list"
  | Alt regex regex
  | Seq regex regex
  | Opt regex

text \<open>
  The ways a greedy repetition of a character class can consume a prefix of the
  subject: the longest run first, then ever shorter ones down to \<open>n\<close> characters
  (the order in which a backtracking matcher tries them).  The result lists what is
  left of the subject.
\<close>

definition rep_class :: "nat \<Rightarrow> char list \<Rightarrow> string \<Rightarrow> string list" where
  "rep_class n cs s =
     map (\<lambda>k. drop k s) (rev [n ..< Suc (length (takeWhile (\<lambda>c. c \<in> set cs) s))])"

text \<open>
  \<open>match_here r s\<close> lists, in the matcher's order of preference, the remainders of
  \<open>s\<close> after each way of matching \<open>r\<close> at the start of \<open>s\<close>.
\<close>

fun match_here :: "regex \<Rightarrow> string \<Rightarrow> string list" where
  "match_here (Lit l) s = (if prefix l s then [drop (length l) s] else [])"
| "match_here (Cls cs) s =
     (case s of [] \<Rightarrow> [] | c # rest \<Rightarrow> if c \<in> set cs then [rest] else [])"
| "match_here (Plus cs) s = rep_class 1 cs s"
| "match_here (AtLeast n cs) s = rep_class n cs s"
| "match_here (Alt a b) s = match_here a s @ match_here b s"
| "match_here (Seq a b) s = concat (map (match_here b) (match_here a s))"
| "match_here (Opt a) s = match_here a s @ [s]"

text \<open>\<^verbatim>\<open>re.match(pattern, s) is not None\<close>: the pattern matches at the start of \<open>s\<close>.\<close>

definition re_match :: "regex \<Rightarrow> string \<Rightarrow> bool" where
  "re_match r s \<longleftrightarrow> match_here r s \<noteq> []"

text \<open>
  \<^verbatim>\<open>re.findall(pattern, s)\<close> for a pattern without groups: the matched texts, found from
  left to right without overlap; at each position the matcher's preferred match is
  taken.  (Neither pattern of the scraper matches the empty string.)
\<close>

function findall :: "regex \<Rightarrow> string \<Rightarrow> string list" where
  "findall r s =
     (case match_here r s of
        [] \<Rightarrow> (case s of [] \<Rightarrow> [] | c # cs \<Rightarrow> findall r cs)
      | rest # others \<Rightarrow>
          (let k = length s - length rest
           in take k s # (case s of [] \<Rightarrow> [] | c # cs \<Rightarrow> findall r (drop (max 1 k) s))))"
  by pat_completeness auto
termination
  by (relation "measure (\<lambda>(r, s). length s)") auto

definition ascii_lower :: "char list" where
  "ascii_lower = ''abcdefghijklmnopqrstuvwxyz''"

definition ascii_upper :: "char list" where
  "ascii_upper = ''ABCDEFGHIJKLMNOPQRSTUVWXYZ''"

definition ascii_digit :: "char list" where
  "ascii_digit = ''0123456789''"

text \<open>\<^verbatim>\<open>[a-zA-Z]\<close>, \<^verbatim>\<open>[a-zA-Z0-9-]\<close>, \<^verbatim>\<open>[a-zA-Z0-9._%+-]\<close> and \<^verbatim>\<open>[a-zA-Z0-9.-]\<close>.\<close>

definition cls_alpha :: "char list" where
  "cls_alpha = ascii_lower @ ascii_upper"

definition cls_host :: "char list" where
  "cls_host = ascii_lower @ ascii_upper @ ascii_digit @ ''-''"

definition cls_local :: "char list" where
  "cls_local = ascii_lower @ ascii_upper @ ascii_digit @ ''._%+-''"

definition cls_domain :: "char list" where
  "cls_domain = ascii_lower @ ascii_upper @ ascii_digit @ ''.-''"

section \<open>Helper functions\<close>

subsection \<open>Coordinates\<close>

text \<open>
  \<^verbatim>\<open>
  def extract_coordinates_from_url(url: str) -> tuple[float, float]:
      coordinates = url.split('/@')[-1].split('/')[0]
      return float(coordinates.split(',')[0]), float(coordinates.split(',')[1])
  \<close>
  Python's built-in \<^verbatim>\<open>float\<close> is the parameter \<open>to_float\<close>: \<open>None\<close> when it raises
  \<^verbatim>\<open>ValueError\<close>, otherwise the number read.  The tuple is evaluated from the left, so
  the first piece is converted before the second piece is looked up.
\<close>

definition extract_coordinates_from_url ::
  "(string \<Rightarrow> 'f option) \<Rightarrow> string \<Rightarrow> exn + ('f \<times> 'f)" where
  "extract_coordinates_from_url to_float url =
     or_raise (index (split ''/@'' url) (- 1)) (\<lambda>tail.
     or_raise (index (split ''/'' tail) 0) (\<lambda>coordinates.
     or_raise (index (split '','' coordinates) 0) (\<lambda>first.
     case to_float first of
       None \<Rightarrow> Inl (ValueError first)
     | Some lat \<Rightarrow>
         or_raise (index (split '','' coordinates) 1) (\<lambda>second.
         case to_float second of
           None \<Rightarrow> Inl (ValueError second)
         | Some lon \<Rightarrow> Inr (lat, lon)))))"

text \<open>
  A reader for the \<open>to_float\<close> parameter at concrete inputs: on a non-empty string of
  ASCII digits it returns the number they denote, as Python's \<^verbatim>\<open>float\<close> does; it
  rejects every other string (Python's \<^verbatim>\<open>float\<close> accepts more, such as signs and
  fractions).
\<close>

definition digit_value :: "char \<Rightarrow> nat" where
  "digit_value c = length (takeWhile (\<lambda>d. d \<noteq> c) ascii_digit)"

definition float_of_digits :: "string \<Rightarrow> nat option" where
  "float_of_digits s =
     (if s \<noteq> [] \<and> list_all (\<lambda>c. c \<in> set ascii_digit) s
      then Some (foldl (\<lambda>n c. 10 * n + digit_value c) 0 s) else None)"

subsection \<open>URL validation\<close>

text \<open>
  \<^verbatim>\<open>
  def is_valid_url(url: str) -> bool:
      url_pattern = r"^(http:\/\/www\.|https:\/\/www\.|http:\/\/|https:\/\/)?[a-zA-Z0-9-]+\.[a-zA-Z]{2,}"
      return re.match(url_pattern, url) is not None
  \<close>
  The leading \<^verbatim>\<open>^\<close> is implied by \<^verbatim>\<open>re.match\<close>.
\<close>

definition url_pattern :: regex where
  "url_pattern =
     Seq (Opt (Alt (Lit ''http://www.'') (Alt (Lit ''https://www.'')
                (Alt (Lit ''http://'') (Lit ''https://'')))))
       (Seq (Plus cls_host) (Seq (Lit ''.'') (AtLeast 2 cls_alpha)))"

definition is_valid_url :: "string \<Rightarrow> bool" where
  "is_valid_url url \<longleftrightarrow> re_match url_pattern url"

subsection \<open>File names\<close>

text \<open>
  \<^verbatim>\<open>
  def sanitize_filename(filename: str) -> str:
      return "".join(c for c in filename if c.isalnum() or c in (' ', '_', '-')).strip()
  \<close>
  \<^verbatim>\<open>isalnum\<close> is taken on ASCII, where it holds of letters and digits.
\<close>

definition sanitize_filename :: "string \<Rightarrow> string" where
  "sanitize_filename filename =
     (let kept = filter (\<lambda>c. c \<in> set (ascii_lower @ ascii_upper @ ascii_digit) \<or>
                              c \<in> set '' _-'') filename
      in rev (dropWhile (\<lambda>c. c = CHR '' '') (rev (dropWhile (\<lambda>c. c = CHR '' '') kept))))"

subsection \<open>Email extraction\<close>

text \<open>\<^verbatim>\<open>email_pattern = r'[a-zA-Z0-9._%+-]+@[a-zA-Z0-9.-]+\.[a-zA-Z]{2,}'\<close>\<close>

definition email_pattern :: regex where
  "email_pattern =
     Seq (Plus cls_local) (Seq (Lit ''@'')
       (Seq (Plus cls_domain) (Seq (Lit ''.'') (AtLeast 2 cls_alpha))))"

text \<open>\<^verbatim>\<open>emails[0] if emails else None\<close>, for the text of a page.\<close>

definition first_email :: "string \<Rightarrow> string option" where
  "first_email visible_text =
     (let emails = findall email_pattern visible_text
      in if emails \<noteq> [] then Some (hd emails) else None)"

text \<open>\<^verbatim>\<open>if email_found:\<close>, the truth value of a string or \<^verbatim>\<open>None\<close>.\<close>

definition truthy :: "string option \<Rightarrow> bool" where
  "truthy v \<longleftrightarrow> (case v of None \<Rightarrow> False | Some s \<Rightarrow> s \<noteq> [])"

section \<open>Data classes\<close>

text \<open>
  \<^verbatim>\<open>
  @dataclass
  class Business:
      name: str = None
      address: str = None
      website: str = None
      phone_number: str = None
      email: str = None
      latitude: float = None
      longitude: float = None
  \<close>
  \<open>'f\<close> is the type of Python's floats.  A \<^verbatim>\<open>BusinessList\<close> is the list of its
  records; writing it to a file is a call to the outside (below).
\<close>

record 'f Business =
  name :: "string option"
  address :: "string option"
  website :: "string option"
  phone_number :: "string option"
  email :: "string option"
  latitude :: "'f option"
  longitude :: "'f option"

definition new_Business :: "'f Business" where
  "new_Business = \<lparr>name = None, address = None, website = None, phone_number = None,
                    email = None, latitude = None, longitude = None\<rparr>"

section \<open>The browser and the program state\<close>

text \<open>
  Browsers, contexts and pages are handles, numbered in the order they are opened.
  The page elements the scraper addresses by XPath are named:
  \<^verbatim>\<open>body\<close>; \<^verbatim>\<open>//div[@id="search"]\<close>; \<^verbatim>\<open>//div[contains(@aria-label, "Results for")]\<close>;
  \<^verbatim>\<open>//a[contains(@href, "https://www.google.com/maps/place")]\<close>;
  \<^verbatim>\<open>//input[@id="searchboxinput"]\<close>; \<^verbatim>\<open>//h1[contains(@Class, "DUwDvf lfPIob")]\<close>; and the
  address, website (\<^verbatim>\<open>authority\<close>) and phone entries of the detail panel.
\<close>

type_synonym handle = nat

datatype selector =
    Body | SearchResults | ResultsPanel | PlaceLinks | SearchBox
  | TitleField | AddressField | WebsiteField | PhoneField

text \<open>
  The calls to the outside: the browser driver, the random generator and the two
  writers of \<^verbatim>\<open>BusinessList\<close>.  \<^verbatim>\<open>LocatorAll\<close> is \<^verbatim>\<open>page.locator(x).all()\<close>, of which the
  scraper uses the length and the elements by position; \<^verbatim>\<open>Click p i\<close> clicks the
  parent of the \<open>i\<close>-th place link; \<^verbatim>\<open>FindPanel\<close> and \<^verbatim>\<open>ScrollPanel\<close> are the two scripts
  given to \<^verbatim>\<open>page.evaluate\<close>.
\<close>

datatype 'f call =
    StartPlaywright
  | StopPlaywright
  | Launch "(string \<times> string \<times> string) option"
  | NewContext handle nat nat string
  | NewPage handle
  | Close handle
  | Goto handle string int
  | WaitForLoadState handle
  | WaitForSelector handle selector int
  | WaitForTimeout handle int
  | InnerText handle selector
  | FindPanel handle
  | ScrollPanel handle
  | LocatorAll handle selector
  | Fill handle selector string
  | Press handle string
  | Hover handle selector
  | Click handle nat
  | PageUrl handle
  | RandInt nat nat
  | SaveToExcel string "'f Business list"
  | SaveToCsv string "'f Business list"

text \<open>The lines the scraper prints, one constructor for each \<^verbatim>\<open>print\<close> statement.\<close>

datatype logmsg =
    InvalidWebsiteUrl string
  | FoundViaSearch string "string option"
  | NoneViaSearch string
  | SearchTimeout string
  | SearchError string exn
  | VisitingMainPage string
  | FoundDirectly string "string option"
  | AttemptingToVisit string
  | FoundOn string "string option"
  | FailedToLoad string exn
  | PerformingGoogleSearch string
  | PanelNotFound
  | Scrolling nat
  | RequiredReached int nat
  | NoNewResults nat
  | StoppingScroll nat
  | UnableToScroll
  | OnlyLoaded nat int nat
  | FinalCount nat
  | ScrollingError exn
  | SearchQuery string
  | ProxyUrl string
  | UserAgent string
  | ViewportSize nat nat
  | VisibleIp string
  | ExtractedWebsite string
  | LocalIp string
  | InvalidUrlSkipped string
  | ExtractingError exn

datatype 'f event = Call "'f call" | Opened handle | Log logmsg

text \<open>
  The state of a run: the outside world, the events so far, the next free handle, and
  the two local variables of \<^verbatim>\<open>scrape_google_maps\<close> that live across the iterations of
  its loop (\<open>business\<close> is \<open>None\<close> while the variable is unbound).
\<close>

record ('w, 'f) st =
  world :: 'w
  events :: "'f event list"
  next_handle :: nat
  business :: "'f Business option"
  business_list :: "'f Business list"

text \<open>
  What the outside answers: a call either raises or returns, and changes the world.
  There is one oracle for each type of result; \<open>py_float\<close> is Python's \<^verbatim>\<open>float\<close> on
  strings.
\<close>

record ('w, 'f) env =
  on_act :: "'f call \<Rightarrow> 'w \<Rightarrow> exn option \<times> 'w"
  on_text :: "'f call \<Rightarrow> 'w \<Rightarrow> (exn + string) \<times> 'w"
  on_count :: "'f call \<Rightarrow> 'w \<Rightarrow> (exn + nat) \<times> 'w"
  on_flag :: "'f call \<Rightarrow> 'w \<Rightarrow> (exn + bool) \<times> 'w"
  py_float :: "string \<Rightarrow> 'f option"

subsection \<open>Statements\<close>

text \<open>
  A statement maps a state to an outcome, \<open>Inl\<close> an exception raised and \<open>Inr\<close> a
  value, and a new state.
\<close>

type_synonym ('w, 'f, 'a) prog = "('w, 'f) st \<Rightarrow> (exn + 'a) \<times> ('w, 'f) st"

definition ret :: "'a \<Rightarrow> ('w, 'f, 'a) prog" where
  "ret x = (\<lambda>s. (Inr x, s))"

definition raise :: "exn \<Rightarrow> ('w, 'f, 'a) prog" where
  "raise e = (\<lambda>s. (Inl e, s))"

definition bnd :: "('w, 'f, 'a) prog \<Rightarrow> ('a \<Rightarrow> ('w, 'f, 'b) prog) \<Rightarrow> ('w, 'f, 'b) prog" where
  "bnd m f = (\<lambda>s. case m s of (Inl e, s') \<Rightarrow> (Inl e, s') | (Inr x, s') \<Rightarrow> f x s')"

definition andthen :: "('w, 'f, 'a) prog \<Rightarrow> ('w, 'f, 'b) prog \<Rightarrow> ('w, 'f, 'b) prog" where
  "andthen m k = bnd m (\<lambda>_. k)"

definition lift :: "exn + 'a \<Rightarrow> ('w, 'f, 'a) prog" where
  "lift r = (\<lambda>s. (r, s))"

text \<open>\<^verbatim>\<open>try: m  except Exception as e: h e\<close>\<close>

definition try_except ::
  "('w, 'f, 'a) prog \<Rightarrow> (exn \<Rightarrow> ('w, 'f, 'a) prog) \<Rightarrow> ('w, 'f, 'a) prog" where
  "try_except m h = (\<lambda>s. case m s of (Inl e, s') \<Rightarrow> h e s' | (Inr x, s') \<Rightarrow> (Inr x, s'))"

text \<open>
  \<^verbatim>\<open>try: m  finally: fin\<close>: \<open>fin\<close> runs on every outcome of \<open>m\<close>; when \<open>fin\<close> itself
  raises, its exception is the outcome.
\<close>

definition try_finally ::
  "('w, 'f, 'a) prog \<Rightarrow> ('w, 'f, unit) prog \<Rightarrow> ('w, 'f, 'a) prog" where
  "try_finally m fin =
     (\<lambda>s. case m s of (r, s') \<Rightarrow>
        (case fin s' of (Inl e, s'') \<Rightarrow> (Inl e, s'') | (Inr u, s'') \<Rightarrow> (r, s'')))"

definition log :: "logmsg \<Rightarrow> ('w, 'f, unit) prog" where
  "log msg = (\<lambda>s. (Inr (), s\<lparr>events := events s @ [Log msg]\<rparr>))"

text \<open>Calls to the outside, by the type of their result.  Every call is recorded.\<close>

definition act :: "('w, 'f) env \<Rightarrow> 'f call \<Rightarrow> ('w, 'f, unit) prog" where
  "act E c =
     (\<lambda>s. case on_act E c (world s) of (r, w) \<Rightarrow>
        ((case r of None \<Rightarrow> Inr () | Some e \<Rightarrow> Inl e),
         s\<lparr>world := w, events := events s @ [Call c]\<rparr>))"

definition ask_text :: "('w, 'f) env \<Rightarrow> 'f call \<Rightarrow> ('w, 'f, string) prog" where
  "ask_text E c =
     (\<lambda>s. case on_text E c (world s) of (r, w) \<Rightarrow>
        (r, s\<lparr>world := w, events := events s @ [Call c]\<rparr>))"

definition ask_count :: "('w, 'f) env \<Rightarrow> 'f call \<Rightarrow> ('w, 'f, nat) prog" where
  "ask_count E c =
     (\<lambda>s. case on_count E c (world s) of (r, w) \<Rightarrow>
        (r, s\<lparr>world := w, events := events s @ [Call c]\<rparr>))"

definition ask_flag :: "('w, 'f) env \<Rightarrow> 'f call \<Rightarrow> ('w, 'f, bool) prog" where
  "ask_flag E c =
     (\<lambda>s. case on_flag E c (world s) of (r, w) \<Rightarrow>
        (r, s\<lparr>world := w, events := events s @ [Call c]\<rparr>))"

text \<open>A call that opens a browser, a context or a page returns a fresh handle.\<close>

definition fresh_handle :: "('w, 'f, handle) prog" where
  "fresh_handle =
     (\<lambda>s. (Inr (next_handle s),
            s\<lparr>next_handle := Suc (next_handle s),
              events := events s @ [Opened (next_handle s)]\<rparr>))"

definition open_handle :: "('w, 'f) env \<Rightarrow> 'f call \<Rightarrow> ('w, 'f, handle) prog" where
  "open_handle E c = andthen (act E c) fresh_handle"

section \<open>Email discovery\<close>

text \<open>
  \<^verbatim>\<open>
  def extract_email_from_rendered_text(page) -> str:
      visible_text = page.inner_text("body")
      emails = re.findall(email_pattern, visible_text)
      return emails[0] if emails else None
  \<close>
\<close>

definition extract_email_from_rendered_text ::
  "('w, 'f) env \<Rightarrow> handle \<Rightarrow> ('w, 'f, string option) prog" where
  "extract_email_from_rendered_text E page =
     bnd (ask_text E (InnerText page Body)) (\<lambda>visible_text. ret (first_email visible_text))"

definition google_search_url :: "string \<Rightarrow> string" where
  "google_search_url website_url =
     ''https://www.google.com/search?q='' @ ''site:'' @ website_url @ '' email''"

text \<open>
  \<^verbatim>\<open>perform_site_specific_google_search(search_page, website_url)\<close>: the early return
  for a URL without scheme, then the query under \<^verbatim>\<open>try\<close> with its two handlers, the
  first for Python's built-in \<^verbatim>\<open>TimeoutError\<close>, the second for every \<^verbatim>\<open>Exception\<close>.
\<close>

definition perform_site_specific_google_search ::
  "('w, 'f) env \<Rightarrow> handle \<Rightarrow> string \<Rightarrow> ('w, 'f, string option) prog" where
  "perform_site_specific_google_search E search_page website_url =
     (if \<not> startswith website_url [''http://'', ''https://'']
      then andthen (log (InvalidWebsiteUrl website_url)) (ret None)
      else try_except
        (andthen (act E (Goto search_page (google_search_url website_url) 15000))
        (andthen (act E (WaitForSelector search_page SearchResults 5000))
        (bnd (extract_email_from_rendered_text E search_page) (\<lambda>email_found.
           if truthy email_found
           then andthen (log (FoundViaSearch website_url email_found)) (ret email_found)
           else andthen (log (NoneViaSearch website_url)) (ret None)))))
        (\<lambda>e. if e = TimeoutError
              then andthen (log (SearchTimeout website_url)) (ret None)
              else andthen (log (SearchError website_url e)) (ret None)))"

definition common_contact_paths :: "string list" where
  "common_contact_paths =
     [''/about'', ''/contact'', ''/about-us'', ''/contact-us'', ''/support'', ''/help'',
      ''/get-in-touch'']"

definition full_url :: "string \<Rightarrow> string \<Rightarrow> string" where
  "full_url website_url path = rstrip_slash website_url @ path"

text \<open>
  The three steps of \<^verbatim>\<open>search_email_on_website\<close>, named as its comments name them.
  The first two yield \<open>Some\<close> of the email with which the function returns, or \<open>None\<close>
  when control passes on to the next step; a return there happens with a string that
  counts as true only.
\<close>

text \<open>Step 1: Check the main page for an email.\<close>

definition check_main_page ::
  "('w, 'f) env \<Rightarrow> handle \<Rightarrow> string \<Rightarrow> ('w, 'f, string option) prog" where
  "check_main_page E search_page website_url =
     andthen (log (VisitingMainPage website_url))
     (andthen (act E (Goto search_page website_url 30000))
     (andthen (act E (WaitForLoadState search_page))
     (bnd (extract_email_from_rendered_text E search_page) (\<lambda>email_found.
        if truthy email_found
        then andthen (log (FoundDirectly website_url email_found)) (ret email_found)
        else ret None))))"

text \<open>
  Step 2: Check common contact paths.  Each path is tried under its own \<^verbatim>\<open>try\<close>, whose
  handler prints the failure; then the loop goes on.
\<close>

definition try_contact_path ::
  "('w, 'f) env \<Rightarrow> handle \<Rightarrow> string \<Rightarrow> string \<Rightarrow> ('w, 'f, string option) prog" where
  "try_contact_path E search_page website_url path =
     try_except
       (andthen (log (AttemptingToVisit (full_url website_url path)))
       (andthen (act E (Goto search_page (full_url website_url path) 15000))
       (andthen (act E (WaitForLoadState search_page))
       (bnd (extract_email_from_rendered_text E search_page) (\<lambda>email_found.
          if truthy email_found
          then andthen (log (FoundOn (full_url website_url path) email_found)) (ret email_found)
          else ret None)))))
       (\<lambda>e. andthen (log (FailedToLoad (full_url website_url path) e)) (ret None))"

fun check_contact_paths ::
  "('w, 'f) env \<Rightarrow> handle \<Rightarrow> string \<Rightarrow> string list \<Rightarrow> ('w, 'f, string option) prog" where
  "check_contact_paths E search_page website_url [] = ret None"
| "check_contact_paths E search_page website_url (path # paths) =
     bnd (try_contact_path E search_page website_url path) (\<lambda>found.
       case found of
         Some email_found \<Rightarrow> ret (Some email_found)
       | None \<Rightarrow> check_contact_paths E search_page website_url paths)"

text \<open>Step 3: perform a Google search as a fallback, on a page of the proxy context.\<close>

definition google_fallback ::
  "('w, 'f) env \<Rightarrow> handle \<Rightarrow> string \<Rightarrow> ('w, 'f, string option) prog" where
  "google_fallback E proxy_context website_url =
     andthen (log (PerformingGoogleSearch website_url))
     (bnd (open_handle E (NewPage proxy_context)) (\<lambda>proxy_page.
      bnd (perform_site_specific_google_search E proxy_page website_url) (\<lambda>email_found.
      andthen (act E (Close proxy_page)) (ret email_found))))"

definition search_email_on_website ::
  "('w, 'f) env \<Rightarrow> handle \<Rightarrow> string \<Rightarrow> handle \<Rightarrow> ('w, 'f, string option) prog" where
  "search_email_on_website E local_context website_url proxy_context =
     bnd (open_handle E (NewPage local_context)) (\<lambda>search_page.
       try_finally
         (bnd (check_main_page E search_page website_url) (\<lambda>found.
            case found of
              Some email_found \<Rightarrow> ret (Some email_found)
            | None \<Rightarrow>
                bnd (check_contact_paths E search_page website_url common_contact_paths)
                  (\<lambda>found.
                     case found of
                       Some email_found \<Rightarrow> ret (Some email_found)
                     | None \<Rightarrow> google_fallback E proxy_context website_url)))
         (act E (Close search_page)))"

section \<open>Listing loader\<close>

text \<open>
  The \<^verbatim>\<open>while scroll_count < max_scrolls\<close> loop of \<^verbatim>\<open>scroll_to_load_more\<close>, with its
  variables \<open>previous_count\<close> and \<open>scroll_count\<close>; it yields \<open>scroll_count\<close> as it stands
  when the loop is left, which the final report prints.
\<close>

function scroll_loop ::
  "('w, 'f) env \<Rightarrow> handle \<Rightarrow> int \<Rightarrow> nat \<Rightarrow> nat \<Rightarrow> nat \<Rightarrow> ('w, 'f, nat) prog" where
  "scroll_loop E page required_items max_scrolls previous_count scroll_count =
     (if scroll_count < max_scrolls then
        bnd (ask_count E (LocatorAll page PlaceLinks)) (\<lambda>current_count.
        andthen (log (Scrolling current_count))
        (if required_items \<le> int current_count
         then andthen (log (RequiredReached required_items scroll_count)) (ret scroll_count)
         else
           bnd (if current_count = previous_count
                then andthen (log (NoNewResults scroll_count))
                     (andthen (act E (WaitForTimeout page 20000))
                     (bnd (ask_count E (LocatorAll page PlaceLinks)) (\<lambda>current_count.
                        if current_count = previous_count
                        then andthen (log (StoppingScroll scroll_count)) (ret None)
                        else ret (Some current_count))))
                else ret (Some current_count))
             (\<lambda>go_on.
                case go_on of
                  None \<Rightarrow> ret scroll_count
                | Some current_count \<Rightarrow>
                    bnd (ask_flag E (ScrollPanel page)) (\<lambda>scrolled.
                      if \<not> scrolled
                      then andthen (log UnableToScroll) (ret scroll_count)
                      else andthen (act E (WaitForTimeout page 3000))
                           (scroll_loop E page required_items max_scrolls current_count
                              (Suc scroll_count))))))
      else ret scroll_count)"
  by pat_completeness auto
termination
  by (relation "measure (\<lambda>(E, page, required_items, max_scrolls, previous_count, scroll_count).
                  max_scrolls - scroll_count)") auto

declare scroll_loop.simps [simp del]

text \<open>
  \<^verbatim>\<open>scroll_to_load_more(page, required_items, max_scrolls=10)\<close>: the whole body is under
  \<^verbatim>\<open>try\<close>, and the handler prints the error.
\<close>

definition scroll_to_load_more ::
  "('w, 'f) env \<Rightarrow> handle \<Rightarrow> int \<Rightarrow> nat \<Rightarrow> ('w, 'f, unit) prog" where
  "scroll_to_load_more E page required_items max_scrolls =
     try_except
       (bnd (ask_flag E (FindPanel page)) (\<lambda>results_panel.
          if \<not> results_panel then log PanelNotFound
          else
            bnd (scroll_loop E page required_items max_scrolls 0 0) (\<lambda>scroll_count.
            bnd (ask_count E (LocatorAll page PlaceLinks)) (\<lambda>final_count.
              if int final_count < required_items
              then log (OnlyLoaded final_count required_items scroll_count)
              else log (FinalCount final_count)))))
       (\<lambda>e. log (ScrollingError e))"

section \<open>Main scraping\<close>

subsection \<open>The local variables of the loop over the listings\<close>

definition assign_business :: "'f Business \<Rightarrow> ('w, 'f, unit) prog" where
  "assign_business b = (\<lambda>s. (Inr (), s\<lparr>business := Some b\<rparr>))"

text \<open>Reading the variable \<open>business\<close> raises while it is unbound.\<close>

definition get_business :: "('w, 'f, 'f Business) prog" where
  "get_business =
     (\<lambda>s. case business s of
             None \<Rightarrow> (Inl (UnboundLocalError ''business''), s)
           | Some b \<Rightarrow> (Inr b, s))"

definition set_field :: "('f Business \<Rightarrow> 'f Business) \<Rightarrow> ('w, 'f, unit) prog" where
  "set_field f = bnd get_business (\<lambda>b. assign_business (f b))"

text \<open>
  \<^verbatim>\<open>business_list.business_list.append(business)\<close>.  The list keeps the record as it
  is now: the scraper never changes a record after it has appended it.
\<close>

definition append_business :: "('w, 'f, unit) prog" where
  "append_business =
     bnd get_business (\<lambda>b. (\<lambda>s. (Inr (), s\<lparr>business_list := business_list s @ [b]\<rparr>)))"

definition or_empty :: "string \<Rightarrow> string" where
  "or_empty t = (if t \<noteq> [] then t else [])"

definition ipify_url :: string where
  "ipify_url = ''https://api64.ipify.org?format=json''"

subsection \<open>One listing\<close>

text \<open>
  The body of \<^verbatim>\<open>try\<close> in the loop \<^verbatim>\<open>for listing in listings\<close>.  The variable \<open>business\<close>
  is bound after the click and the wait.  \<open>website'\<close> is \<^verbatim>\<open>business.website\<close> after the
  protocol has been added.
\<close>

definition extract_business_details ::
  "('w, 'f) env \<Rightarrow> handle \<Rightarrow> handle \<Rightarrow> handle \<Rightarrow> nat \<Rightarrow> nat \<Rightarrow> string \<Rightarrow> nat \<Rightarrow>
     ('w, 'f, unit) prog" where
  "extract_business_details E page local_browser proxy_context viewport_width viewport_height
       user_agent listing =
     andthen (act E (Click page listing))
     (andthen (act E (WaitForTimeout page 5000))
     (andthen (assign_business new_Business)
     (bnd (ask_text E (InnerText page TitleField)) (\<lambda>t.
      andthen (set_field (\<lambda>b. b\<lparr>name := Some (or_empty t)\<rparr>))
     (bnd (ask_text E (InnerText page AddressField)) (\<lambda>t.
      andthen (set_field (\<lambda>b. b\<lparr>address := Some (or_empty t)\<rparr>))
     (bnd (ask_text E (InnerText page WebsiteField)) (\<lambda>t.
      andthen (set_field (\<lambda>b. b\<lparr>website := Some (or_empty t)\<rparr>))
     (bnd (ask_text E (InnerText page PhoneField)) (\<lambda>t.
      andthen (set_field (\<lambda>b. b\<lparr>phone_number := Some (or_empty t)\<rparr>))
     (bnd (ask_text E (PageUrl page)) (\<lambda>url.
      bnd (lift (extract_coordinates_from_url (py_float E) url)) (\<lambda>(lat, lon).
      andthen (set_field (\<lambda>b. b\<lparr>latitude := Some lat, longitude := Some lon\<rparr>))
     (bnd get_business (\<lambda>b.
        if truthy (website b) then
          (let website' = (if \<not> startswith (the (website b)) [''http://'', ''https://'']
                           then ''https://'' @ the (website b) else the (website b))
           in andthen (set_field (\<lambda>b. b\<lparr>website := Some website'\<rparr>))
              (andthen (log (ExtractedWebsite website'))
              (if is_valid_url website' then
                 bnd (open_handle E (NewContext local_browser viewport_width viewport_height
                        user_agent)) (\<lambda>local_context.
                 bnd (open_handle E (NewPage local_context)) (\<lambda>local_page.
                 andthen (act E (Goto local_page ipify_url 10000))
                 (bnd (ask_text E (InnerText local_page Body)) (\<lambda>local_ip.
                  andthen (log (LocalIp local_ip))
                 (bnd (search_email_on_website E local_context website' proxy_context)
                    (\<lambda>email_found.
                  andthen (set_field (\<lambda>b. b\<lparr>email := email_found\<rparr>))
                 (act E (Close local_context))))))))
               else log (InvalidUrlSkipped website'))))
        else ret ())))))))))))))))"

text \<open>
  \<^verbatim>\<open>
  try: ...
  except Exception as e:
      print(f"Error extracting business details: {e}")
  finally:
      business_list.business_list.append(business)
  \<close>
\<close>

definition process_listing ::
  "('w, 'f) env \<Rightarrow> handle \<Rightarrow> handle \<Rightarrow> handle \<Rightarrow> nat \<Rightarrow> nat \<Rightarrow> string \<Rightarrow> nat \<Rightarrow>
     ('w, 'f, unit) prog" where
  "process_listing E page local_browser proxy_context viewport_width viewport_height
       user_agent listing =
     try_finally
       (try_except
          (extract_business_details E page local_browser proxy_context viewport_width
             viewport_height user_agent listing)
          (\<lambda>e. log (ExtractingError e)))
       append_business"

fun process_listings ::
  "('w, 'f) env \<Rightarrow> handle \<Rightarrow> handle \<Rightarrow> handle \<Rightarrow> nat \<Rightarrow> nat \<Rightarrow> string \<Rightarrow> nat list \<Rightarrow>
     ('w, 'f, unit) prog" where
  "process_listings E page local_browser proxy_context viewport_width viewport_height
       user_agent [] = ret ()"
| "process_listings E page local_browser proxy_context viewport_width viewport_height
       user_agent (listing # listings) =
     andthen (process_listing E page local_browser proxy_context viewport_width
                viewport_height user_agent listing)
             (process_listings E page local_browser proxy_context viewport_width
                viewport_height user_agent listings)"

subsection \<open>One query\<close>

definition save_results :: "('w, 'f) env \<Rightarrow> string \<Rightarrow> ('w, 'f, unit) prog" where
  "save_results E output_file_suffix =
     andthen (\<lambda>s. act E (SaveToExcel (sanitize_filename output_file_suffix) (business_list s)) s)
             (\<lambda>s. act E (SaveToCsv (sanitize_filename output_file_suffix) (business_list s)) s)"

text \<open>
  The sections \<^verbatim>\<open>Extract Business Details\<close> and \<^verbatim>\<open>Save Results\<close>: the place links found
  are cut to the first \<^verbatim>\<open>total\<close>, a new \<^verbatim>\<open>BusinessList\<close> is made, every listing is
  processed and the list is written to both files.
\<close>

definition extract_and_save ::
  "('w, 'f) env \<Rightarrow> handle \<Rightarrow> handle \<Rightarrow> handle \<Rightarrow> nat \<Rightarrow> nat \<Rightarrow> string \<Rightarrow> int \<Rightarrow> nat \<Rightarrow>
     string \<Rightarrow> ('w, 'f, unit) prog" where
  "extract_and_save E page local_browser proxy_context viewport_width viewport_height
       user_agent total' found output_file_suffix =
     andthen (\<lambda>s. (Inr (), s\<lparr>business_list := []\<rparr>))
     (andthen (process_listings E page local_browser proxy_context viewport_width
                 viewport_height user_agent (slice_to total' [0 ..< found]))
     (save_results E output_file_suffix))"

text \<open>
  The body of the outer \<^verbatim>\<open>try\<close> of \<^verbatim>\<open>scrape_google_maps\<close>: the proxy context and the
  map page, the search, the loader, then the listings and the two files.
\<close>

definition run_query ::
  "('w, 'f) env \<Rightarrow> handle \<Rightarrow> handle \<Rightarrow> string \<Rightarrow> int \<Rightarrow> int \<Rightarrow> string \<Rightarrow> string \<Rightarrow>
     ('w, 'f, unit) prog" where
  "run_query E proxy_browser local_browser user_agent delay total' search_query
       output_file_suffix =
     bnd (ask_count E (RandInt 1024 1920)) (\<lambda>viewport_width.
     bnd (ask_count E (RandInt 768 1080)) (\<lambda>viewport_height.
     andthen (log (ViewportSize viewport_width viewport_height))
     (bnd (open_handle E (NewContext proxy_browser viewport_width viewport_height user_agent))
        (\<lambda>proxy_context.
      bnd (open_handle E (NewPage proxy_context)) (\<lambda>page.
      andthen (act E (Goto page ipify_url 10000))
     (bnd (ask_text E (InnerText page Body)) (\<lambda>ip.
      andthen (log (VisibleIp ip))
     (andthen (act E (Goto page ''https://www.google.com/maps'' 60000))
     (andthen (act E (WaitForTimeout page (delay * 1000)))
     (andthen (act E (Fill page SearchBox search_query))
     (andthen (act E (WaitForTimeout page 3000))
     (andthen (act E (Press page ''Enter''))
     (andthen (act E (WaitForSelector page ResultsPanel 30000))
     (andthen (scroll_to_load_more E page total' 10)
     (andthen (act E (Hover page PlaceLinks))
     (bnd (ask_count E (LocatorAll page PlaceLinks)) (\<lambda>found.
        extract_and_save E page local_browser proxy_context viewport_width viewport_height
          user_agent total' found output_file_suffix)))))))))))))))))"

text \<open>
  The body of \<^verbatim>\<open>with sync_playwright() as p\<close>: the two browsers are launched, then the
  query runs under \<^verbatim>\<open>try\<close>, with both browsers closed in \<^verbatim>\<open>finally\<close>.
\<close>

definition with_browsers ::
  "('w, 'f) env \<Rightarrow> string \<Rightarrow> string \<Rightarrow> string \<Rightarrow> string \<Rightarrow> int \<Rightarrow> int \<Rightarrow> string \<Rightarrow> string \<Rightarrow>
     ('w, 'f, unit) prog" where
  "with_browsers E proxy_server proxy_username proxy_password user_agent delay total'
       search_query output_file_suffix =
     bnd (open_handle E (Launch (Some (proxy_server, proxy_username, proxy_password))))
       (\<lambda>proxy_browser.
     bnd (open_handle E (Launch None)) (\<lambda>local_browser.
       try_finally
         (run_query E proxy_browser local_browser user_agent delay total' search_query
            output_file_suffix)
         (andthen (act E (Close proxy_browser)) (act E (Close local_browser)))))"

text \<open>
  \<^verbatim>\<open>scrape_google_maps(proxy_server, proxy_username, proxy_password, user_agent, delay,
  total, suburb, state)\<close>: the two checks of the inputs, three lines printed, and the
  driver as a context manager around the body above.
\<close>

definition scrape_google_maps ::
  "('w, 'f) env \<Rightarrow> string \<Rightarrow> string \<Rightarrow> string \<Rightarrow> string \<Rightarrow> int \<Rightarrow> int \<Rightarrow> string \<Rightarrow> string \<Rightarrow>
     ('w, 'f, unit) prog" where
  "scrape_google_maps E proxy_server proxy_username proxy_password user_agent delay total'
       suburb state =
     (if \<not> (prefix ''http://'' proxy_server \<and> \<not> prefix ''https://'' proxy_server)
      then raise (ValueError (''Invalid proxy format: '' @ proxy_server))
      else if user_agent = []
      then raise (ValueError ''User agent cannot be empty.'')
      else
        andthen (log (SearchQuery (''boutiques in +'' @ suburb @ '', '' @ state)))
        (andthen (log (ProxyUrl proxy_server))
        (andthen (log (UserAgent user_agent))
        (andthen (act E StartPlaywright)
        (try_finally
           (with_browsers E proxy_server proxy_username proxy_password user_agent delay total'
              (''boutiques in +'' @ suburb @ '', '' @ state)
              (replace_space (suburb @ ''_'' @ state)))
           (act E StopPlaywright))))))"

section \<open>Sample runs\<close>

text \<open>The state in which a run starts.\<close>

definition start :: "'w \<Rightarrow> ('w, 'f) st" where
  "start w = \<lparr>world = w, events = [], next_handle = 0, business = None, business_list = []\<rparr>"

text \<open>
  An outside in which every call succeeds and nothing is found: pages have no text,
  no place link is rendered and the results panel is absent.
\<close>

definition quiet_env :: "(unit, nat) env" where
  "quiet_env =
     \<lparr>on_act = (\<lambda>c w. (None, w)),
      on_text = (\<lambda>c w. (Inr [], w)),
      on_count = (\<lambda>c w. (Inr 0, w)),
      on_flag = (\<lambda>c w. (Inr False, w)),
      py_float = float_of_digits\<rparr>"


text \<open>
  An outside whose world is the time waited so far, in milliseconds: the results panel
  is there and scrolls, no place link is rendered before 20 seconds have passed and
  50 of them are rendered from then on.
\<close>

definition late_feed_env :: "(int, nat) env" where
  "late_feed_env =
     \<lparr>on_act = (\<lambda>c w. case c of WaitForTimeout p ms \<Rightarrow> (None, w + ms) | _ \<Rightarrow> (None, w)),
      on_text = (\<lambda>c w. (Inr [], w)),
      on_count = (\<lambda>c w. (Inr (if w < 20000 then 0 else 50), w)),
      on_flag = (\<lambda>c w. (Inr True, w)),
      py_float = float_of_digits\<rparr>"

text \<open>
  An outside with three listings on the map, named \<^verbatim>\<open>shop0\<close>, \<^verbatim>\<open>shop1\<close> and \<^verbatim>\<open>shop2\<close>, none
  with a website.  The world is the number of the listing whose detail panel is shown;
  clicking the listing \<open>bad\<close> raises, every other call succeeds.
\<close>

definition listing_env :: "nat \<Rightarrow> (nat, nat) env" where
  "listing_env bad =
     \<lparr>on_act = (\<lambda>c w. case c of
                  Click p i \<Rightarrow> if i = bad then (Some (ExternalError ''click''), w) else (None, i)
                | _ \<Rightarrow> (None, w)),
      on_text = (\<lambda>c w. case c of
                  InnerText p TitleField \<Rightarrow> (Inr (''shop'' @ [ascii_digit ! w]), w)
                | PageUrl p \<Rightarrow> (Inr ''https://www.google.com/maps/place/shop/@37,144,17z/data=x'', w)
                | _ \<Rightarrow> (Inr [], w)),
      on_count = (\<lambda>c w. (Inr 3, w)),
      on_flag = (\<lambda>c w. (Inr True, w)),
      py_float = float_of_digits\<rparr>"

text \<open>The record that a complete extraction of listing \<open>i\<close> gives in this outside.\<close>

definition shop_record :: "nat \<Rightarrow> nat Business" where
  "shop_record i =
     \<lparr>name = Some (''shop'' @ [ascii_digit ! i]), address = Some [], website = Some [],
      phone_number = Some [], email = None, latitude = Some 37, longitude = Some 144\<rparr>"



section \<open>Notions used to state the properties\<close>

subsection \<open>The language of a pattern\<close>

text \<open>The texts a pattern matches, independent of any matching strategy.\<close>

fun lang :: "regex \<Rightarrow> string set" where
  "lang (Lit l) = {l}"
| "lang (Cls cs) = {[c] | c. c \<in> set cs}"
| "lang (Plus cs) = {m. 1 \<le> length m \<and> set m \<subseteq> set cs}"
| "lang (AtLeast n cs) = {m. n \<le> length m \<and> set m \<subseteq> set cs}"
| "lang (Alt a b) = lang a \<union> lang b"
| "lang (Seq a b) = {x @ y | x y. x \<in> lang a \<and> y \<in> lang b}"
| "lang (Opt a) = insert [] (lang a)"

definition url_head :: regex where
  "url_head = Opt (Alt (Lit ''http://www.'') (Alt (Lit ''https://www.'')
                (Alt (Lit ''http://'') (Lit ''https://''))))"

definition url_tail :: regex where
  "url_tail = Seq (Plus cls_host) (Seq (Lit ''.'') (AtLeast 2 cls_alpha))"

subsection \<open>The shape of a website address\<close>

text \<open>
  A string has the shape for a list of admissible openings when it starts with one of
  them, followed by a host of one or more letters, digits or hyphens, a dot, and a
  top-level domain of at least two letters; what follows is not constrained.
\<close>

definition has_shape :: "string list \<Rightarrow> string \<Rightarrow> bool" where
  "has_shape pres url \<longleftrightarrow>
     (\<exists>pre host tld rest. url = pre @ host @ ''.'' @ tld @ rest \<and> pre \<in> set pres \<and>
        1 \<le> length host \<and> set host \<subseteq> set cls_host \<and>
        2 \<le> length tld \<and> set tld \<subseteq> set cls_alpha)"

text \<open>
  The openings in the words of the specification, an optional scheme followed by an
  optional \<^verbatim>\<open>www.\<close>, and the openings the pattern of \<open>is_valid_url\<close> lists.
\<close>

definition spec_prefixes :: "string list" where
  "spec_prefixes = concat (map (\<lambda>scheme. map (\<lambda>www. scheme @ www) ['''', ''www.''])
                             ['''', ''http://'', ''https://''])"

definition code_prefixes :: "string list" where
  "code_prefixes = ['''', ''http://www.'', ''https://www.'', ''http://'', ''https://'']"

subsection \<open>Assertions on runs\<close>

text \<open>
  \<open>leads P m R\<close>: from a state with \<open>P\<close>, the statement \<open>m\<close> ends in a state with \<open>R\<close>,
  whether it returns or raises.
\<close>

definition leads ::
  "(('w, 'f) st \<Rightarrow> bool) \<Rightarrow> ('w, 'f, 'a) prog \<Rightarrow> (('w, 'f) st \<Rightarrow> bool) \<Rightarrow> bool" where
  "leads P m R \<longleftrightarrow> (\<forall>s. P s \<longrightarrow> R (snd (m s)))"

text \<open>
  An assertion is \<open>stable\<close> for a set \<open>Q\<close> of events when it survives every change of
  the world and of the handle counter and every event of \<open>Q\<close>; it is \<open>var_stable\<close> when
  it survives every assignment to the variable \<open>business\<close>, and \<open>list_stable\<close> when it
  survives every change of \<open>business_list\<close>.
\<close>

definition stable :: "('f event \<Rightarrow> bool) \<Rightarrow> (('w, 'f) st \<Rightarrow> bool) \<Rightarrow> bool" where
  "stable Q I \<longleftrightarrow>
     (\<forall>s w n. I s \<longrightarrow> I (s\<lparr>world := w\<rparr>) \<and> I (s\<lparr>next_handle := n\<rparr>)) \<and>
     (\<forall>s ev. I s \<and> Q ev \<longrightarrow> I (s\<lparr>events := events s @ [ev]\<rparr>))"

definition var_stable :: "(('w, 'f) st \<Rightarrow> bool) \<Rightarrow> bool" where
  "var_stable I \<longleftrightarrow> (\<forall>s b. I s \<longrightarrow> I (s\<lparr>business := b\<rparr>))"

definition list_stable :: "(('w, 'f) st \<Rightarrow> bool) \<Rightarrow> bool" where
  "list_stable I \<longleftrightarrow> (\<forall>s bs. I s \<longrightarrow> I (s\<lparr>business_list := bs\<rparr>))"

text \<open>
  The events every part of the scraper may produce: all but the writing of a file and
  the report of a website address without scheme.
\<close>

fun harmless :: "'f event \<Rightarrow> bool" where
  "harmless (Call (SaveToExcel f bs)) = False"
| "harmless (Call (SaveToCsv f bs)) = False"
| "harmless (Log (InvalidWebsiteUrl u)) = False"
| "harmless ev = True"

text \<open>The report printed by the early return of the search-engine fallback.\<close>

fun early_return :: "'f event \<Rightarrow> bool" where
  "early_return (Log (InvalidWebsiteUrl u)) = True"
| "early_return ev = False"

subsection \<open>What is handed to the output files\<close>

fun saved_records :: "'f event \<Rightarrow> 'f Business list option" where
  "saved_records (Call (SaveToExcel f bs)) = Some bs"
| "saved_records (Call (SaveToCsv f bs)) = Some bs"
| "saved_records ev = None"

text \<open>An event is fine for \<open>ok\<close> when it writes no file, or a list of records with \<open>ok\<close>.\<close>

definition saves_ok :: "('f Business list \<Rightarrow> bool) \<Rightarrow> 'f event \<Rightarrow> bool" where
  "saves_ok ok ev = (case saved_records ev of None \<Rightarrow> True | Some bs \<Rightarrow> ok bs)"

text \<open>\<open>since t ok s\<close>: the events of \<open>s\<close> are those of \<open>t\<close> followed by events fine for \<open>ok\<close>.\<close>

definition since :: "'f event list \<Rightarrow> ('f Business list \<Rightarrow> bool) \<Rightarrow> ('w, 'f) st \<Rightarrow> bool" where
  "since t ok s \<longleftrightarrow> (\<exists>evs. events s = t @ evs \<and> list_all (saves_ok ok) evs)"

subsection \<open>Scrolls\<close>

fun is_scroll :: "'f event \<Rightarrow> bool" where
  "is_scroll (Call (ScrollPanel p)) = True"
| "is_scroll ev = False"

definition scrolls :: "'f event list \<Rightarrow> nat" where
  "scrolls evs = length (filter is_scroll evs)"


subsection \<open>Pieces of a place URL\<close>

text \<open>
  A piece holds neither a comma nor a slash; the text behind a piece is empty or
  begins with one of them.
\<close>

definition plain :: "string \<Rightarrow> bool" where
  "plain x \<longleftrightarrow> CHR '','' \<notin> set x \<and> CHR ''/'' \<notin> set x"

definition ends_piece :: "string \<Rightarrow> bool" where
  "ends_piece rest \<longleftrightarrow> rest = [] \<or> hd rest = CHR '','' \<or> hd rest = CHR ''/''"

subsection \<open>Traces of the email discovery\<close>

text \<open>
  \<open>yields m R\<close>: from every state, \<open>m\<close> only adds events, and \<open>R\<close> holds of its outcome
  and the events it added.
\<close>

definition yields ::
  "('w, 'f, 'a) prog \<Rightarrow> (exn + 'a \<Rightarrow> 'f event list \<Rightarrow> bool) \<Rightarrow> bool" where
  "yields m R \<longleftrightarrow> (\<forall>s. \<exists>evs. events (snd (m s)) = events s @ evs \<and> R (fst (m s)) evs)"


text \<open>
  What a run of the email discovery shows of its stages: the addresses it navigates
  to, the reports of an email found on the page at an address, and the report that the
  search-engine fallback begins.
\<close>

datatype mark = Visit string | Found string | Search

fun mark_of :: "'f event \<Rightarrow> mark list" where
  "mark_of (Call (Goto p u t)) = [Visit u]"
| "mark_of (Log (FoundDirectly u e)) = [Found u]"
| "mark_of (Log (FoundOn u e)) = [Found u]"
| "mark_of (Log (PerformingGoogleSearch u)) = [Search]"
| "mark_of ev = []"

definition marks :: "'f event list \<Rightarrow> mark list" where
  "marks evs = concat (map mark_of evs)"

definition contact_urls :: "string \<Rightarrow> string list" where
  "contact_urls url = map (full_url url) common_contact_paths"


section \<open>Patterns: the matcher against the language\<close>

lemma takeWhile_prefix_len:
  "set m \<subseteq> A \<Longrightarrow> length m \<le> length (takeWhile (\<lambda>c. c \<in> A) (m @ r))"
  by (induction m) auto

lemma take_in_class:
  "k \<le> length (takeWhile P s) \<Longrightarrow> set (take k s) \<subseteq> {c. P c}"
proof (induction s arbitrary: k)
  case Nil
  then show ?case by simp
next
  case (Cons a s)
  then show ?case by (cases k) (auto split: if_splits)
qed

lemma set_rep_class:
  "set (rep_class n cs s) =
     (\<lambda>k. drop k s) ` {k. n \<le> k \<and> k \<le> length (takeWhile (\<lambda>c. c \<in> set cs) s)}"
  unfolding rep_class_def by (simp only: set_map set_rev set_upt) (auto simp: less_Suc_eq_le)

lemma rep_class_iff:
  "r \<in> set (rep_class n cs s) \<longleftrightarrow> (\<exists>m. s = m @ r \<and> n \<le> length m \<and> set m \<subseteq> set cs)"
proof
  assume "r \<in> set (rep_class n cs s)"
  then obtain k where k: "n \<le> k" "k \<le> length (takeWhile (\<lambda>c. c \<in> set cs) s)"
    and r: "r = drop k s"
    unfolding set_rep_class by blast
  have kl: "k \<le> length s"
    using k(2) length_takeWhile_le[of "\<lambda>c. c \<in> set cs" s] by linarith
  have "s = take k s @ r" using r by simp
  moreover have "n \<le> length (take k s)" using k(1) kl by simp
  moreover have "set (take k s) \<subseteq> set cs" using take_in_class[OF k(2)] by blast
  ultimately show "\<exists>m. s = m @ r \<and> n \<le> length m \<and> set m \<subseteq> set cs" by blast
next
  assume "\<exists>m. s = m @ r \<and> n \<le> length m \<and> set m \<subseteq> set cs"
  then obtain m where m: "s = m @ r" "n \<le> length m" "set m \<subseteq> set cs" by blast
  have "length m \<le> length (takeWhile (\<lambda>c. c \<in> set cs) s)"
    using takeWhile_prefix_len[OF m(3)] m(1) by simp
  moreover have "r = drop (length m) s" using m(1) by simp
  ultimately show "r \<in> set (rep_class n cs s)"
    unfolding set_rep_class using m(2) by blast
qed

lemma match_here_iff:
  "r \<in> set (match_here e s) \<longleftrightarrow> (\<exists>m. s = m @ r \<and> m \<in> lang e)"
proof (induction e arbitrary: s r)
  case (Lit l)
  then show ?case by (auto simp: prefix_def)
next
  case (Cls cs)
  then show ?case by (cases s) auto
next
  case (Plus cs)
  then show ?case by (simp add: rep_class_iff)
next
  case (AtLeast n cs)
  then show ?case by (simp add: rep_class_iff)
next
  case (Alt a b)
  then show ?case by auto
next
  case (Seq a b)
  show ?case
  proof
    assume "r \<in> set (match_here (Seq a b) s)"
    then obtain t where t: "t \<in> set (match_here a s)" "r \<in> set (match_here b t)" by auto
    from t(1) obtain x where x: "s = x @ t" "x \<in> lang a" using Seq.IH(1) by blast
    from t(2) obtain y where y: "t = y @ r" "y \<in> lang b" using Seq.IH(2) by blast
    have "s = (x @ y) @ r" using x(1) y(1) by simp
    moreover have "x @ y \<in> lang (Seq a b)" using x(2) y(2) by auto
    ultimately show "\<exists>m. s = m @ r \<and> m \<in> lang (Seq a b)" by blast
  next
    assume "\<exists>m. s = m @ r \<and> m \<in> lang (Seq a b)"
    then obtain x y where xy: "s = (x @ y) @ r" "x \<in> lang a" "y \<in> lang b" by auto
    have "y @ r \<in> set (match_here a s)" using Seq.IH(1)[of "y @ r" s] xy(1,2) by auto
    moreover have "r \<in> set (match_here b (y @ r))" using Seq.IH(2)[of r "y @ r"] xy(3) by auto
    ultimately show "r \<in> set (match_here (Seq a b) s)" by auto
  qed
next
  case (Opt a)
  then show ?case by auto
qed

lemma re_match_iff: "re_match e s \<longleftrightarrow> (\<exists>m r. s = m @ r \<and> m \<in> lang e)"
proof -
  have "re_match e s \<longleftrightarrow> (\<exists>r. r \<in> set (match_here e s))"
    by (cases "match_here e s") (auto simp: re_match_def)
  then show ?thesis using match_here_iff by blast
qed

section \<open>URL validation\<close>

lemma lang_url_tail:
  "y \<in> lang url_tail \<longleftrightarrow>
     (\<exists>host tld. y = host @ ''.'' @ tld \<and>
        1 \<le> length host \<and> set host \<subseteq> set cls_host \<and>
        2 \<le> length tld \<and> set tld \<subseteq> set cls_alpha)"
  unfolding url_tail_def by (simp only: lang.simps) blast

lemma lang_url_head: "x \<in> lang url_head \<longleftrightarrow> x \<in> set code_prefixes"
  unfolding url_head_def code_prefixes_def by (simp only: lang.simps) auto

lemma lang_url_pattern:
  "m \<in> lang url_pattern \<longleftrightarrow>
     (\<exists>pre host tld. m = pre @ host @ ''.'' @ tld \<and> pre \<in> set code_prefixes \<and>
        1 \<le> length host \<and> set host \<subseteq> set cls_host \<and>
        2 \<le> length tld \<and> set tld \<subseteq> set cls_alpha)"
proof -
  have eq: "url_pattern = Seq url_head url_tail"
    by (simp add: url_pattern_def url_head_def url_tail_def)
  have "m \<in> lang url_pattern \<longleftrightarrow>
          (\<exists>x y. m = x @ y \<and> x \<in> lang url_head \<and> y \<in> lang url_tail)"
    unfolding eq by auto
  then show ?thesis
    unfolding lang_url_head lang_url_tail by blast
qed

lemma is_valid_url_shape: "is_valid_url url \<longleftrightarrow> has_shape code_prefixes url"
proof
  assume "is_valid_url url"
  then obtain m r where mr: "url = m @ r" "m \<in> lang url_pattern"
    unfolding is_valid_url_def re_match_iff by blast
  from mr(2) obtain pre host tld where d: "m = pre @ host @ ''.'' @ tld"
      "pre \<in> set code_prefixes" "1 \<le> length host" "set host \<subseteq> set cls_host"
      "2 \<le> length tld" "set tld \<subseteq> set cls_alpha"
    unfolding lang_url_pattern by blast
  have "url = pre @ host @ ''.'' @ tld @ r" using mr(1) d(1) by simp
  then show "has_shape code_prefixes url"
    unfolding has_shape_def using d(2-6) by blast
next
  assume "has_shape code_prefixes url"
  then obtain pre host tld rest where h: "url = pre @ host @ ''.'' @ tld @ rest"
      "pre \<in> set code_prefixes" "1 \<le> length host" "set host \<subseteq> set cls_host"
      "2 \<le> length tld" "set tld \<subseteq> set cls_alpha"
    unfolding has_shape_def by blast
  have "pre @ host @ ''.'' @ tld \<in> lang url_pattern"
    unfolding lang_url_pattern using h(2-6) by blast
  moreover have "url = (pre @ host @ ''.'' @ tld) @ rest" using h(1) by simp
  ultimately show "is_valid_url url"
    unfolding is_valid_url_def re_match_iff by blast
qed

lemmas url_eval =
  is_valid_url_def re_match_def url_pattern_def rep_class_def cls_host_def cls_alpha_def
  ascii_lower_def ascii_upper_def ascii_digit_def

lemma is_valid_url_examples:
  "\<not> is_valid_url ''N/A'' \<and> \<not> is_valid_url '''' \<and> \<not> is_valid_url ''not a url'' \<and>
   is_valid_url ''example.com'' \<and> is_valid_url ''http://example.com'' \<and>
   is_valid_url ''https://www.example.co.uk''"
  by (simp add: url_eval)

text \<open>
  Claim C8, as stated: URL validation returns true if and only if the string has the
  shape optional scheme, optional \<^verbatim>\<open>www.\<close>, host, dot, top-level domain of at least two
  letters.  It fails at \<^verbatim>\<open>www.a.com\<close>, which has that shape (no scheme, \<^verbatim>\<open>www.\<close>, host
  \<^verbatim>\<open>a\<close>, domain \<^verbatim>\<open>com\<close>) and is rejected: the pattern knows \<^verbatim>\<open>www.\<close> only behind a
  scheme, so it reads \<^verbatim>\<open>www\<close> as the host and finds the one-letter domain \<^verbatim>\<open>a\<close>.
\<close>

theorem C8_counterexample:
  "has_shape spec_prefixes ''www.a.com'' \<and> \<not> is_valid_url ''www.a.com''"
proof
  have "''www.a.com'' = ''www.'' @ ''a'' @ ''.'' @ ''com'' @ ''''" by simp
  moreover have "''www.'' \<in> set spec_prefixes" by (simp add: spec_prefixes_def)
  moreover have "set ''a'' \<subseteq> set cls_host" by (simp add: cls_host_def ascii_lower_def)
  moreover have "set ''com'' \<subseteq> set cls_alpha" by (simp add: cls_alpha_def ascii_lower_def)
  ultimately show "has_shape spec_prefixes ''www.a.com''"
    unfolding has_shape_def
    by (intro exI[of _ "''www.''"] exI[of _ "''a''"] exI[of _ "''com''"] exI[of _ "''''"]) simp
  show "\<not> is_valid_url ''www.a.com''" by (simp add: url_eval)
qed

text \<open>
  Claim C8, amended: URL validation returns true if and only if the string starts with
  nothing, a scheme \<^verbatim>\<open>http://\<close> or \<^verbatim>\<open>https://\<close>, or a scheme followed by \<^verbatim>\<open>www.\<close>, and
  then a host of letters, digits and hyphens, a dot and at least two letters, whatever
  comes after; it is false for \<^verbatim>\<open>N/A\<close>, the empty string and \<^verbatim>\<open>not a url\<close>, and true for
  \<^verbatim>\<open>example.com\<close>, \<^verbatim>\<open>http://example.com\<close> and \<^verbatim>\<open>https://www.example.co.uk\<close>.
\<close>

theorem C8_is_valid_url_shape:
  "(is_valid_url url \<longleftrightarrow> has_shape code_prefixes url) \<and>
   \<not> is_valid_url ''N/A'' \<and> \<not> is_valid_url '''' \<and> \<not> is_valid_url ''not a url'' \<and>
   is_valid_url ''example.com'' \<and> is_valid_url ''http://example.com'' \<and>
   is_valid_url ''https://www.example.co.uk''"
  using is_valid_url_shape is_valid_url_examples by blast

theorem C8_witness:
  "has_shape code_prefixes ''https://www.example.co.uk'' \<and> \<not> has_shape code_prefixes ''N/A''"
  using C8_is_valid_url_shape[of "''https://www.example.co.uk''"]
    C8_is_valid_url_shape[of "''N/A''"] by blast

section \<open>Statements: evaluation rules\<close>

lemma ret_apply [simp]: "ret x s = (Inr x, s)"
  by (simp add: ret_def)

lemma raise_apply [simp]: "raise e s = (Inl e, s)"
  by (simp add: raise_def)

lemma lift_apply [simp]: "lift r s = (r, s)"
  by (simp add: lift_def)

lemma bnd_apply:
  "bnd m f s = (case m s of (Inl e, s') \<Rightarrow> (Inl e, s') | (Inr x, s') \<Rightarrow> f x s')"
  by (simp add: bnd_def)

lemma bnd_Inr [simp]: "m s = (Inr x, s') \<Longrightarrow> bnd m f s = f x s'"
  by (simp add: bnd_def)

lemma bnd_Inl [simp]: "m s = (Inl e, s') \<Longrightarrow> bnd m f s = (Inl e, s')"
  by (simp add: bnd_def)

lemma andthen_Inr [simp]: "m s = (Inr x, s') \<Longrightarrow> andthen m k s = k s'"
  by (simp add: andthen_def)

lemma andthen_Inl [simp]: "m s = (Inl e, s') \<Longrightarrow> andthen m k s = (Inl e, s')"
  by (simp add: andthen_def)

lemma try_except_Inr [simp]: "m s = (Inr x, s') \<Longrightarrow> try_except m h s = (Inr x, s')"
  by (simp add: try_except_def)

lemma try_except_Inl [simp]: "m s = (Inl e, s') \<Longrightarrow> try_except m h s = h e s'"
  by (simp add: try_except_def)

lemma try_finally_apply:
  "try_finally m fin s =
     (case fin (snd (m s)) of (Inl e, s'') \<Rightarrow> (Inl e, s'') | (Inr u, s'') \<Rightarrow> (fst (m s), s''))"
proof -
  obtain r s' where ms: "m s = (r, s')" by (cases "m s")
  obtain r' s'' where fs: "fin s' = (r', s'')" by (cases "fin s'")
  show ?thesis by (cases r') (simp_all add: try_finally_def ms fs)
qed

lemma log_apply [simp]: "log msg s = (Inr (), s\<lparr>events := events s @ [Log msg]\<rparr>)"
  by (simp add: log_def)

lemma fresh_handle_apply [simp]:
  "fresh_handle s =
     (Inr (next_handle s),
      s\<lparr>next_handle := Suc (next_handle s), events := events s @ [Opened (next_handle s)]\<rparr>)"
  by (simp add: fresh_handle_def)

section \<open>Statements: assertions\<close>

lemma leadsI: "(\<And>s. P s \<Longrightarrow> R (snd (m s))) \<Longrightarrow> leads P m R"
  by (simp add: leads_def)

lemma leadsD: "leads P m R \<Longrightarrow> P s \<Longrightarrow> R (snd (m s))"
  by (simp add: leads_def)

lemma leads_weaken: "leads P m R \<Longrightarrow> (\<And>s. P' s \<Longrightarrow> P s) \<Longrightarrow> (\<And>s. R s \<Longrightarrow> R' s) \<Longrightarrow> leads P' m R'"
  by (simp add: leads_def)

lemma leads_ret [intro!, simp]: "leads I (ret x) I"
  by (simp add: leads_def)

lemma leads_raise [intro!, simp]: "leads I (raise e) I"
  by (simp add: leads_def)

lemma leads_lift [intro!, simp]: "leads I (lift r) I"
  by (simp add: leads_def)

lemma leads_bnd:
  assumes "leads P m M" and "\<And>x. leads M (f x) R" and "\<And>s. M s \<Longrightarrow> R s"
  shows "leads P (bnd m f) R"
proof (rule leadsI)
  fix s assume P: "P s"
  obtain r s' where ms: "m s = (r, s')" by (cases "m s")
  have M: "M s'" using leadsD[OF assms(1) P] ms by simp
  show "R (snd (bnd m f s))"
  proof (cases r)
    case (Inl e)
    then show ?thesis using ms M assms(3) by simp
  next
    case (Inr x)
    then show ?thesis using ms leadsD[OF assms(2) M] by simp
  qed
qed

lemma keeps_bnd [intro!]:
  "leads I m I \<Longrightarrow> (\<And>x. leads I (f x) I) \<Longrightarrow> leads I (bnd m f) I"
  by (rule leads_bnd)

lemma keeps_andthen [intro!]:
  "leads I m I \<Longrightarrow> leads I k I \<Longrightarrow> leads I (andthen m k) I"
  unfolding andthen_def by (rule leads_bnd)

lemma leads_andthen:
  "leads P m M \<Longrightarrow> leads M k R \<Longrightarrow> (\<And>s. M s \<Longrightarrow> R s) \<Longrightarrow> leads P (andthen m k) R"
  unfolding andthen_def by (rule leads_bnd)

lemma leads_try_except:
  assumes "leads P m M" and "\<And>e. leads M (h e) R" and "\<And>s. M s \<Longrightarrow> R s"
  shows "leads P (try_except m h) R"
proof (rule leadsI)
  fix s assume P: "P s"
  obtain r s' where ms: "m s = (r, s')" by (cases "m s")
  have M: "M s'" using leadsD[OF assms(1) P] ms by simp
  show "R (snd (try_except m h s))"
  proof (cases r)
    case (Inl e)
    then show ?thesis using ms leadsD[OF assms(2) M] by simp
  next
    case (Inr x)
    then show ?thesis using ms M assms(3) by simp
  qed
qed

lemma keeps_try_except [intro!]:
  "leads I m I \<Longrightarrow> (\<And>e. leads I (h e) I) \<Longrightarrow> leads I (try_except m h) I"
  by (rule leads_try_except)

lemma leads_try_finally:
  assumes "leads P m M" and "leads M fin R"
  shows "leads P (try_finally m fin) R"
proof (rule leadsI)
  fix s assume P: "P s"
  have "M (snd (m s))" using leadsD[OF assms(1) P] .
  then have R: "R (snd (fin (snd (m s))))" by (rule leadsD[OF assms(2)])
  obtain r' s'' where fs: "fin (snd (m s)) = (r', s'')" by (cases "fin (snd (m s))")
  show "R (snd (try_finally m fin s))"
    using R by (cases r') (simp_all add: try_finally_apply fs)
qed

lemma keeps_try_finally [intro!]:
  "leads I m I \<Longrightarrow> leads I fin I \<Longrightarrow> leads I (try_finally m fin) I"
  by (rule leads_try_finally)

lemma leads_if [intro!]:
  "(c \<Longrightarrow> leads P m R) \<Longrightarrow> (\<not> c \<Longrightarrow> leads P k R) \<Longrightarrow> leads P (if c then m else k) R"
  by simp

lemma leads_case_option [intro!]:
  "(v = None \<Longrightarrow> leads P m R) \<Longrightarrow> (\<And>x. v = Some x \<Longrightarrow> leads P (f x) R) \<Longrightarrow>
   leads P (case v of None \<Rightarrow> m | Some x \<Rightarrow> f x) R"
  by (cases v) simp_all

lemma stable_world: "stable Q I \<Longrightarrow> I s \<Longrightarrow> I (s\<lparr>world := w\<rparr>)"
  unfolding stable_def by blast

lemma stable_handle: "stable Q I \<Longrightarrow> I s \<Longrightarrow> I (s\<lparr>next_handle := n\<rparr>)"
  unfolding stable_def by blast

lemma stable_event: "stable Q I \<Longrightarrow> Q ev \<Longrightarrow> I s \<Longrightarrow> I (s\<lparr>events := events s @ [ev]\<rparr>)"
  unfolding stable_def by blast

lemma stable_call:
  assumes "stable Q I" and "Q (Call c)" and "I s"
  shows "I (s\<lparr>world := w, events := events s @ [Call c]\<rparr>)"
  using stable_event[OF assms(1,2) stable_world[OF assms(1,3), of w]] by simp

lemma keeps_log: "stable Q I \<Longrightarrow> Q (Log msg) \<Longrightarrow> leads I (log msg) I"
  by (rule leadsI) (simp add: stable_event)

lemma keeps_act: "stable Q I \<Longrightarrow> Q (Call c) \<Longrightarrow> leads I (act E c) I"
  by (rule leadsI) (simp add: act_def stable_call split: prod.splits)

lemma keeps_ask_text: "stable Q I \<Longrightarrow> Q (Call c) \<Longrightarrow> leads I (ask_text E c) I"
  by (rule leadsI) (simp add: ask_text_def stable_call split: prod.splits)

lemma keeps_ask_count: "stable Q I \<Longrightarrow> Q (Call c) \<Longrightarrow> leads I (ask_count E c) I"
  by (rule leadsI) (simp add: ask_count_def stable_call split: prod.splits)

lemma keeps_ask_flag: "stable Q I \<Longrightarrow> Q (Call c) \<Longrightarrow> leads I (ask_flag E c) I"
  by (rule leadsI) (simp add: ask_flag_def stable_call split: prod.splits)

lemma keeps_fresh_handle:
  assumes "stable Q I" and "\<And>h. Q (Opened h)"
  shows "leads I fresh_handle I"
proof (rule leadsI)
  fix s assume "I s"
  then have "I (s\<lparr>next_handle := Suc (next_handle s)\<rparr>)"
    by (rule stable_handle[OF assms(1)])
  then have "I (s\<lparr>next_handle := Suc (next_handle s)\<rparr>
                \<lparr>events := events (s\<lparr>next_handle := Suc (next_handle s)\<rparr>) @ [Opened (next_handle s)]\<rparr>)"
    by (rule stable_event[OF assms(1) assms(2)])
  then show "I (snd (fresh_handle s))" by simp
qed

lemma keeps_open_handle:
  "stable Q I \<Longrightarrow> Q (Call c) \<Longrightarrow> (\<And>h. Q (Opened h)) \<Longrightarrow> leads I (open_handle E c) I"
  unfolding open_handle_def by (intro keeps_andthen keeps_act keeps_fresh_handle)

section \<open>What every part of the scraper keeps\<close>

text \<open>
  An assertion that is stable for a set of events containing the harmless ones is kept
  by every part of the scraper that neither writes a file nor reports an address
  without scheme.
\<close>

lemmas keeps_intros =
  keeps_bnd keeps_andthen keeps_try_except keeps_try_finally leads_if leads_case_option
  leads_ret leads_raise leads_lift

lemma startswith_normalised:
  "startswith (if \<not> startswith w [''http://'', ''https://''] then ''https://'' @ w else w)
     [''http://'', ''https://'']"
  by (simp add: startswith_def)

lemma keeps_extract_email:
  assumes st: "stable Q I" and h: "\<And>ev. harmless ev \<Longrightarrow> Q ev"
  shows "leads I (extract_email_from_rendered_text E page) I"
  unfolding extract_email_from_rendered_text_def
  by (intro keeps_intros keeps_ask_text[OF st] h) simp

lemma keeps_perform:
  assumes st: "stable Q I" and h: "\<And>ev. harmless ev \<Longrightarrow> Q ev"
    and url: "startswith website_url [''http://'', ''https://'']"
  shows "leads I (perform_site_specific_google_search E search_page website_url) I"
  unfolding perform_site_specific_google_search_def using url
  by (simp only: not_True_eq_False if_False simp_thms)
     (intro keeps_intros keeps_act[OF st] keeps_log[OF st] keeps_extract_email[OF st h] h; simp)

lemma keeps_check_main_page:
  assumes st: "stable Q I" and h: "\<And>ev. harmless ev \<Longrightarrow> Q ev"
  shows "leads I (check_main_page E search_page website_url) I"
  unfolding check_main_page_def
  by (intro keeps_intros keeps_act[OF st] keeps_log[OF st] keeps_extract_email[OF st h] h; simp)

lemma keeps_try_contact_path:
  assumes st: "stable Q I" and h: "\<And>ev. harmless ev \<Longrightarrow> Q ev"
  shows "leads I (try_contact_path E search_page website_url path) I"
  unfolding try_contact_path_def
  by (intro keeps_intros keeps_act[OF st] keeps_log[OF st] keeps_extract_email[OF st h] h; simp)

lemma keeps_check_contact_paths:
  assumes st: "stable Q I" and h: "\<And>ev. harmless ev \<Longrightarrow> Q ev"
  shows "leads I (check_contact_paths E search_page website_url paths) I"
proof (induction paths)
  case Nil
  show ?case unfolding check_contact_paths.simps by (rule leads_ret)
next
  case (Cons path paths)
  show ?case
    unfolding check_contact_paths.simps
    by (intro keeps_intros keeps_try_contact_path[OF st h] Cons)
qed

lemma keeps_google_fallback:
  assumes st: "stable Q I" and h: "\<And>ev. harmless ev \<Longrightarrow> Q ev"
    and url: "startswith website_url [''http://'', ''https://'']"
  shows "leads I (google_fallback E proxy_context website_url) I"
  unfolding google_fallback_def
  by (intro keeps_intros keeps_act[OF st] keeps_log[OF st] keeps_open_handle[OF st]
        keeps_perform[OF st h url] h; simp)

lemma keeps_search_email_on_website:
  assumes st: "stable Q I" and h: "\<And>ev. harmless ev \<Longrightarrow> Q ev"
    and url: "startswith website_url [''http://'', ''https://'']"
  shows "leads I (search_email_on_website E local_context website_url proxy_context) I"
  unfolding search_email_on_website_def
  by (intro keeps_intros keeps_act[OF st] keeps_open_handle[OF st]
        keeps_check_main_page[OF st h] keeps_check_contact_paths[OF st h]
        keeps_google_fallback[OF st h url] h; simp)

lemma keeps_scroll_loop:
  assumes st: "stable Q I" and h: "\<And>ev. harmless ev \<Longrightarrow> Q ev"
  shows "leads I (scroll_loop E page required_items max_scrolls previous_count scroll_count) I"
proof (induction E page required_items max_scrolls previous_count scroll_count
    rule: scroll_loop.induct)
  case (1 E page required_items max_scrolls previous_count scroll_count)
  show ?case
    by (subst scroll_loop.simps)
       (intro keeps_intros keeps_act[OF st] keeps_log[OF st] keeps_ask_count[OF st]
          keeps_ask_flag[OF st] h "1.IH"; simp)
qed

lemma keeps_scroll_to_load_more:
  assumes st: "stable Q I" and h: "\<And>ev. harmless ev \<Longrightarrow> Q ev"
  shows "leads I (scroll_to_load_more E page required_items max_scrolls) I"
  unfolding scroll_to_load_more_def
  by (intro keeps_intros keeps_log[OF st] keeps_ask_count[OF st] keeps_ask_flag[OF st]
        keeps_scroll_loop[OF st h] h; simp)

lemma keeps_assign_business: "var_stable I \<Longrightarrow> leads I (assign_business b) I"
  by (simp add: leads_def var_stable_def assign_business_def)

lemma keeps_get_business: "leads I get_business I"
  by (simp add: leads_def get_business_def split: option.splits)

lemma keeps_set_field: "var_stable I \<Longrightarrow> leads I (set_field f) I"
  unfolding set_field_def by (intro keeps_bnd keeps_get_business keeps_assign_business)

lemma leads_case_prod:
  "(\<And>a b. leads P (f a b) R) \<Longrightarrow> leads P (case x of (a, b) \<Rightarrow> f a b) R"
  by (cases x) simp

lemma keeps_extract_business_details:
  assumes st: "stable Q I" and h: "\<And>ev. harmless ev \<Longrightarrow> Q ev" and vs: "var_stable I"
  shows "leads I (extract_business_details E page local_browser proxy_context viewport_width
                    viewport_height user_agent listing) I"
  unfolding extract_business_details_def Let_def
  by (intro keeps_intros leads_case_prod keeps_act[OF st] keeps_log[OF st]
        keeps_ask_text[OF st] keeps_open_handle[OF st] keeps_assign_business[OF vs]
        keeps_set_field[OF vs] keeps_get_business
        keeps_search_email_on_website[OF st h startswith_normalised] h; simp)

lemma keeps_process_listing_try:
  assumes st: "stable Q I" and h: "\<And>ev. harmless ev \<Longrightarrow> Q ev" and vs: "var_stable I"
  shows "leads I (try_except
                    (extract_business_details E page local_browser proxy_context
                       viewport_width viewport_height user_agent listing)
                    (\<lambda>e. log (ExtractingError e))) I"
  by (intro keeps_intros keeps_log[OF st] keeps_extract_business_details[OF st h vs] h; simp)

lemma keeps_append_business: "list_stable I \<Longrightarrow> leads I append_business I"
  by (simp add: leads_def list_stable_def append_business_def get_business_def bnd_def
        split: option.splits)

lemma keeps_process_listing:
  assumes st: "stable Q I" and h: "\<And>ev. harmless ev \<Longrightarrow> Q ev"
    and vs: "var_stable I" and ls: "list_stable I"
  shows "leads I (process_listing E page local_browser proxy_context viewport_width
                    viewport_height user_agent listing) I"
  unfolding process_listing_def
  by (intro keeps_try_finally keeps_process_listing_try[OF st h vs] keeps_append_business[OF ls])

lemma keeps_process_listings:
  assumes st: "stable Q I" and h: "\<And>ev. harmless ev \<Longrightarrow> Q ev"
    and vs: "var_stable I" and ls: "list_stable I"
  shows "leads I (process_listings E page local_browser proxy_context viewport_width
                    viewport_height user_agent listings) I"
proof (induction listings)
  case Nil
  show ?case unfolding process_listings.simps by (rule leads_ret)
next
  case (Cons listing listings)
  show ?case
    unfolding process_listings.simps
    by (intro keeps_andthen keeps_process_listing[OF st h vs ls] Cons)
qed

lemma keeps_run_query:
  assumes st: "stable Q I" and h: "\<And>ev. harmless ev \<Longrightarrow> Q ev"
    and tail: "\<And>page proxy_context viewport_width viewport_height found.
                 leads I (extract_and_save E page local_browser proxy_context viewport_width
                            viewport_height user_agent total' found output_file_suffix) I"
  shows "leads I (run_query E proxy_browser local_browser user_agent delay total'
                    search_query output_file_suffix) I"
  unfolding run_query_def
  by (intro keeps_intros keeps_act[OF st] keeps_log[OF st] keeps_ask_text[OF st]
        keeps_ask_count[OF st] keeps_open_handle[OF st] keeps_scroll_to_load_more[OF st h]
        tail h; simp)

lemma keeps_with_browsers:
  assumes st: "stable Q I" and h: "\<And>ev. harmless ev \<Longrightarrow> Q ev"
    and tail: "\<And>page local_browser proxy_context viewport_width viewport_height found.
                 leads I (extract_and_save E page local_browser proxy_context viewport_width
                            viewport_height user_agent total' found output_file_suffix) I"
  shows "leads I (with_browsers E proxy_server proxy_username proxy_password user_agent
                    delay total' search_query output_file_suffix) I"
  unfolding with_browsers_def
  by (intro keeps_intros keeps_act[OF st] keeps_open_handle[OF st]
        keeps_run_query[OF st h tail] h; simp)

lemma keeps_scrape_google_maps:
  assumes st: "stable Q I" and h: "\<And>ev. harmless ev \<Longrightarrow> Q ev"
    and tail: "\<And>page local_browser proxy_context viewport_width viewport_height found.
                 leads I (extract_and_save E page local_browser proxy_context viewport_width
                            viewport_height user_agent total' found
                            (replace_space (suburb @ ''_'' @ state))) I"
  shows "leads I (scrape_google_maps E proxy_server proxy_username proxy_password user_agent
                    delay total' suburb state) I"
  unfolding scrape_google_maps_def
  by (intro keeps_intros keeps_act[OF st] keeps_log[OF st]
        keeps_with_browsers[OF st h tail] h; simp)

lemma keeps_save_results:
  assumes st: "stable Q I" and sv: "\<And>f bs. Q (Call (SaveToExcel f bs)) \<and> Q (Call (SaveToCsv f bs))"
  shows "leads I (save_results E output_file_suffix) I"
proof -
  have a: "leads I (\<lambda>s. act E (SaveToExcel (sanitize_filename output_file_suffix) (business_list s)) s) I"
    using keeps_act[OF st, of _ E] sv by (simp add: leads_def)
  have b: "leads I (\<lambda>s. act E (SaveToCsv (sanitize_filename output_file_suffix) (business_list s)) s) I"
    using keeps_act[OF st, of _ E] sv by (simp add: leads_def)
  show ?thesis unfolding save_results_def by (intro keeps_andthen a b)
qed

lemma keeps_extract_and_save:
  assumes st: "stable Q I" and h: "\<And>ev. harmless ev \<Longrightarrow> Q ev"
    and vs: "var_stable I" and ls: "list_stable I"
    and sv: "\<And>f bs. Q (Call (SaveToExcel f bs)) \<and> Q (Call (SaveToCsv f bs))"
  shows "leads I (extract_and_save E page local_browser proxy_context viewport_width
                    viewport_height user_agent total' found output_file_suffix) I"
proof -
  have "leads I (\<lambda>s. (Inr (), s\<lparr>business_list := []\<rparr>)) I"
    using ls by (simp add: leads_def list_stable_def)
  then show ?thesis
    unfolding extract_and_save_def
    by (intro keeps_andthen keeps_process_listings[OF st h vs ls] keeps_save_results[OF st sv])
qed

section \<open>The checks of the inputs\<close>

lemma stable_prefix: "stable (\<lambda>ev. True) (\<lambda>s. prefix t (events s))"
  by (simp add: stable_def prefix_def) (metis append.assoc)

lemma var_stable_events: "var_stable (\<lambda>s. P (events s))"
  by (simp add: var_stable_def)

lemma list_stable_events: "list_stable (\<lambda>s. P (events s))"
  by (simp add: list_stable_def)

lemma grows_with_browsers:
  "leads (\<lambda>s. prefix t (events s))
     (try_finally
        (with_browsers E proxy_server proxy_username proxy_password user_agent delay total'
           search_query output_file_suffix)
        (act E StopPlaywright))
     (\<lambda>s. prefix t (events s))"
  by (intro keeps_try_finally keeps_with_browsers[OF stable_prefix]
        keeps_extract_and_save[OF stable_prefix] keeps_act[OF stable_prefix]
        var_stable_events list_stable_events) simp_all

lemma https_not_http: "prefix ''https://'' p \<Longrightarrow> \<not> prefix ''http://'' p"
  by (auto simp: prefix_def)

lemma scrape_valid_starts:
  assumes "prefix ''http://'' proxy_server" and "user_agent \<noteq> []"
  shows "prefix (events s @
                   [Log (SearchQuery (''boutiques in +'' @ suburb @ '', '' @ state)),
                    Log (ProxyUrl proxy_server), Log (UserAgent user_agent),
                    Call StartPlaywright])
           (events (snd (scrape_google_maps E proxy_server proxy_username proxy_password
                           user_agent delay total' suburb state s)))"
proof -
  let ?t = "events s @
              [Log (SearchQuery (''boutiques in +'' @ suburb @ '', '' @ state)),
               Log (ProxyUrl proxy_server), Log (UserAgent user_agent), Call StartPlaywright]"
  let ?s3 = "s\<lparr>events := events s @
              [Log (SearchQuery (''boutiques in +'' @ suburb @ '', '' @ state)),
               Log (ProxyUrl proxy_server), Log (UserAgent user_agent)]\<rparr>"
  let ?rest = "try_finally
        (with_browsers E proxy_server proxy_username proxy_password user_agent delay total'
           (''boutiques in +'' @ suburb @ '', '' @ state)
           (replace_space (suburb @ ''_'' @ state)))
        (act E StopPlaywright)"
  have nh: "\<not> prefix ''https://'' proxy_server"
    using assms(1) https_not_http by blast
  have eq: "scrape_google_maps E proxy_server proxy_username proxy_password user_agent delay
              total' suburb state s = andthen (act E StartPlaywright) ?rest ?s3"
    using assms nh by (simp add: scrape_google_maps_def)
  obtain r w where ow: "on_act E StartPlaywright (world s) = (r, w)"
    by (cases "on_act E StartPlaywright (world s)")
  let ?s4 = "?s3\<lparr>world := w, events := ?t\<rparr>"
  have act: "act E StartPlaywright ?s3 = ((case r of None \<Rightarrow> Inr () | Some e \<Rightarrow> Inl e), ?s4)"
    using ow by (simp add: act_def)
  show ?thesis
  proof (cases r)
    case None
    have "prefix ?t (events (snd (?rest ?s4)))"
      by (rule leadsD[OF grows_with_browsers]) simp
    then show ?thesis using eq act None by simp
  next
    case (Some e)
    then show ?thesis using eq act by simp
  qed
qed

text \<open>
  Claim C9: the orchestrator checks its inputs before it launches anything.  When the
  proxy server does not begin with \<^verbatim>\<open>http://\<close>, as is the case of every value that
  begins with \<^verbatim>\<open>https://\<close>, or when the user agent is empty, it raises a \<^verbatim>\<open>ValueError\<close>
  that names the fault, and the state is as before: no call was made, no browser
  launched.  With a proxy server that begins with \<^verbatim>\<open>http://\<close> and a user agent that is
  not empty, the checks pass and the run goes on to print its three lines and to
  start the browser driver.
\<close>

theorem C9_input_validation:
  "(\<not> prefix ''http://'' proxy_server \<longrightarrow>
      scrape_google_maps E proxy_server proxy_username proxy_password user_agent delay total'
        suburb state s =
      (Inl (ValueError (''Invalid proxy format: '' @ proxy_server)), s)) \<and>
   (prefix ''https://'' proxy_server \<longrightarrow> \<not> prefix ''http://'' proxy_server) \<and>
   (prefix ''http://'' proxy_server \<and> user_agent = [] \<longrightarrow>
      scrape_google_maps E proxy_server proxy_username proxy_password user_agent delay total'
        suburb state s =
      (Inl (ValueError ''User agent cannot be empty.''), s)) \<and>
   (prefix ''http://'' proxy_server \<and> user_agent \<noteq> [] \<longrightarrow>
      prefix (events s @
                [Log (SearchQuery (''boutiques in +'' @ suburb @ '', '' @ state)),
                 Log (ProxyUrl proxy_server), Log (UserAgent user_agent),
                 Call StartPlaywright])
        (events (snd (scrape_google_maps E proxy_server proxy_username proxy_password
                        user_agent delay total' suburb state s))))"
proof (intro conjI impI)
  assume "\<not> prefix ''http://'' proxy_server"
  then show "scrape_google_maps E proxy_server proxy_username proxy_password user_agent delay
               total' suburb state s =
             (Inl (ValueError (''Invalid proxy format: '' @ proxy_server)), s)"
    by (simp add: scrape_google_maps_def)
next
  assume "prefix ''https://'' proxy_server"
  then show "\<not> prefix ''http://'' proxy_server" by (rule https_not_http)
next
  assume a: "prefix ''http://'' proxy_server \<and> user_agent = []"
  then have "\<not> prefix ''https://'' proxy_server" using https_not_http by blast
  then show "scrape_google_maps E proxy_server proxy_username proxy_password user_agent delay
               total' suburb state s =
             (Inl (ValueError ''User agent cannot be empty.''), s)"
    using a by (simp add: scrape_google_maps_def)
next
  assume "prefix ''http://'' proxy_server \<and> user_agent \<noteq> []"
  then show "prefix (events s @
                [Log (SearchQuery (''boutiques in +'' @ suburb @ '', '' @ state)),
                 Log (ProxyUrl proxy_server), Log (UserAgent user_agent),
                 Call StartPlaywright])
        (events (snd (scrape_google_maps E proxy_server proxy_username proxy_password
                        user_agent delay total' suburb state s)))"
    using scrape_valid_starts by blast
qed

theorem C9_witness:
  "scrape_google_maps quiet_env ''https://proxy.example:8080'' ''user'' ''secret''
     ''Mozilla/5.0'' 3 40 ''Fitzroy'' ''VIC'' (start ()) =
     (Inl (ValueError ''Invalid proxy format: https://proxy.example:8080''), start ()) \<and>
   scrape_google_maps quiet_env ''http://proxy.example:8080'' ''user'' ''secret''
     '''' 3 40 ''Fitzroy'' ''VIC'' (start ()) =
     (Inl (ValueError ''User agent cannot be empty.''), start ()) \<and>
   prefix [Log (SearchQuery ''boutiques in +Fitzroy, VIC''),
           Log (ProxyUrl ''http://proxy.example:8080''), Log (UserAgent ''Mozilla/5.0''),
           Call StartPlaywright]
     (events (snd (scrape_google_maps quiet_env ''http://proxy.example:8080'' ''user''
                     ''secret'' ''Mozilla/5.0'' 3 40 ''Fitzroy'' ''VIC'' (start ()))))"
  using C9_input_validation[of "''https://proxy.example:8080''" quiet_env "''user''"
          "''secret''" "''Mozilla/5.0''" 3 40 "''Fitzroy''" "''VIC''" "start ()"]
        C9_input_validation[of "''http://proxy.example:8080''" quiet_env "''user''"
          "''secret''" "''''" 3 40 "''Fitzroy''" "''VIC''" "start ()"]
        C9_input_validation[of "''http://proxy.example:8080''" quiet_env "''user''"
          "''secret''" "''Mozilla/5.0''" 3 40 "''Fitzroy''" "''VIC''" "start ()"]
  by (simp add: start_def)

section \<open>The early return of the search-engine fallback\<close>

lemma stable_no_early_return:
  "stable (\<lambda>ev. \<not> early_return ev) (\<lambda>s. \<not> list_ex early_return (events s))"
  by (simp add: stable_def)

lemma harmless_not_early_return: "harmless ev \<Longrightarrow> \<not> early_return ev"
  by (cases ev rule: early_return.cases) simp_all

text \<open>
  Claim C10: a website address that starts with \<^verbatim>\<open>http://\<close> or \<^verbatim>\<open>https://\<close> never takes
  the early return of the search-engine fallback, in email discovery as a whole; and
  the orchestrator hands email discovery such addresses only, so that no run of
  \<^verbatim>\<open>scrape_google_maps\<close> ever takes that return (its report is never printed).
\<close>

theorem C10_early_return_unreachable:
  "(startswith website_url [''http://'', ''https://''] \<and>
    \<not> list_ex early_return (events s) \<longrightarrow>
      \<not> list_ex early_return
          (events (snd (search_email_on_website E local_context website_url proxy_context s)))) \<and>
   (\<not> list_ex early_return (events s) \<longrightarrow>
      \<not> list_ex early_return
          (events (snd (scrape_google_maps E proxy_server proxy_username proxy_password
                          user_agent delay total' suburb state s))))"
proof (intro conjI impI)
  assume a: "startswith website_url [''http://'', ''https://''] \<and>
             \<not> list_ex early_return (events s)"
  have "leads (\<lambda>s. \<not> list_ex early_return (events s))
          (search_email_on_website E local_context website_url proxy_context)
          (\<lambda>s. \<not> list_ex early_return (events s))"
    using a by (intro keeps_search_email_on_website[OF stable_no_early_return]
                  harmless_not_early_return) simp_all
  then show "\<not> list_ex early_return
          (events (snd (search_email_on_website E local_context website_url proxy_context s)))"
    using a by (simp add: leads_def)
next
  assume a: "\<not> list_ex early_return (events s)"
  have "leads (\<lambda>s. \<not> list_ex early_return (events s))
          (scrape_google_maps E proxy_server proxy_username proxy_password user_agent delay
             total' suburb state)
          (\<lambda>s. \<not> list_ex early_return (events s))"
    by (intro keeps_scrape_google_maps[OF stable_no_early_return]
          keeps_extract_and_save[OF stable_no_early_return]
          harmless_not_early_return var_stable_events list_stable_events) simp_all
  then show "\<not> list_ex early_return
          (events (snd (scrape_google_maps E proxy_server proxy_username proxy_password
                          user_agent delay total' suburb state s)))"
    using a by (simp add: leads_def)
qed

theorem C10_witness:
  "startswith ''https://shop.example'' [''http://'', ''https://''] \<and>
   \<not> list_ex early_return
       (events (snd (search_email_on_website quiet_env 0 ''https://shop.example'' 1
                       (start ())))) \<and>
   \<not> list_ex early_return
       (events (snd (scrape_google_maps quiet_env ''http://proxy.example:8080'' ''user''
                       ''secret'' ''Mozilla/5.0'' 3 40 ''Fitzroy'' ''VIC'' (start ()))))"
  using C10_early_return_unreachable[of "''https://shop.example''" "start ()" quiet_env 0 1
          "''http://proxy.example:8080''" "''user''" "''secret''" "''Mozilla/5.0''" 3 40
          "''Fitzroy''" "''VIC''"]
  by (simp add: start_def startswith_def)

section \<open>The records handed to the output files\<close>

lemma harmless_saves_ok: "harmless ev \<Longrightarrow> saves_ok ok ev"
  by (cases ev rule: harmless.cases) (simp_all add: saves_ok_def)

lemma stable_since: "stable (saves_ok ok) (since t ok)"
  by (auto simp: stable_def since_def)

lemma var_stable_since: "var_stable (since t ok)"
  by (simp add: var_stable_def since_def)

lemma list_stable_since: "list_stable (since t ok)"
  by (simp add: list_stable_def since_def)

lemma since_refl: "since (events s) ok s"
  by (simp add: since_def)

text \<open>A listing that is processed without exception adds exactly one record.\<close>

lemma stable_list_fixed: "stable (\<lambda>ev. True) (\<lambda>s. business_list s = L)"
  by (simp add: stable_def)

lemma var_stable_list_fixed: "var_stable (\<lambda>s. business_list s = L)"
  by (simp add: var_stable_def)

lemma process_listing_appends_one:
  assumes "process_listing E page local_browser proxy_context viewport_width viewport_height
             user_agent listing s = (Inr u, s')"
  shows "length (business_list s') = Suc (length (business_list s))"
proof -
  let ?body = "try_except
                 (extract_business_details E page local_browser proxy_context viewport_width
                    viewport_height user_agent listing)
                 (\<lambda>e. log (ExtractingError e))"
  obtain r s1 where b: "?body s = (r, s1)" by (cases "?body s")
  have "leads (\<lambda>x. business_list x = business_list s) ?body
          (\<lambda>x. business_list x = business_list s)"
    by (intro keeps_process_listing_try[OF stable_list_fixed] var_stable_list_fixed) simp
  then have l1: "business_list s1 = business_list s"
    using b by (simp add: leads_def) (metis snd_conv)
  obtain r2 s2 where f: "append_business s1 = (r2, s2)" by (cases "append_business s1")
  have "try_finally ?body append_business s =
          (case r2 of Inl e \<Rightarrow> (Inl e, s2) | Inr v \<Rightarrow> (r, s2))"
    by (simp add: try_finally_apply b f split: sum.splits)
  then have r2: "r2 = Inr ()" and s': "s' = s2"
    using assms by (auto simp: process_listing_def split: sum.splits)
  have "length (business_list s2) = Suc (length (business_list s1))"
    using f r2
    by (auto simp: append_business_def get_business_def bnd_def split: option.splits)
  then show ?thesis using l1 s' by simp
qed

lemma process_listings_appends:
  "process_listings E page local_browser proxy_context viewport_width viewport_height
     user_agent listings s = (Inr u, s') \<Longrightarrow>
   length (business_list s') = length (business_list s) + length listings"
proof (induction listings arbitrary: s)
  case Nil
  then show ?case by simp
next
  case (Cons listing listings)
  let ?one = "process_listing E page local_browser proxy_context viewport_width viewport_height
                user_agent listing"
  obtain r s1 where o: "?one s = (r, s1)" by (cases "?one s")
  show ?case
  proof (cases r)
    case (Inl e)
    then show ?thesis using Cons.prems o by simp
  next
    case (Inr v)
    then have "process_listings E page local_browser proxy_context viewport_width
                 viewport_height user_agent listings s1 = (Inr u, s')"
      using Cons.prems o by simp
    then have "length (business_list s') = length (business_list s1) + length listings"
      by (rule Cons.IH)
    moreover have "length (business_list s1) = Suc (length (business_list s))"
      using process_listing_appends_one o Inr by blast
    ultimately show ?thesis by simp
  qed
qed

lemma since_call:
  assumes "since t ok s" and "saves_ok ok (Call c)"
  shows "since t ok (s\<lparr>world := w, events := events s @ [Call c]\<rparr>)"
  using assms by (auto simp: since_def)

lemma save_results_apply:
  "save_results E output_file_suffix s =
     (case act E (SaveToExcel (sanitize_filename output_file_suffix) (business_list s)) s of
        (Inl e, s') \<Rightarrow> (Inl e, s')
      | (Inr u, s') \<Rightarrow>
          act E (SaveToCsv (sanitize_filename output_file_suffix) (business_list s')) s')"
  by (simp add: save_results_def andthen_def bnd_def)

lemma save_results_since:
  assumes "since t ok s" and "ok (business_list s)"
  shows "since t ok (snd (save_results E output_file_suffix s))"
proof -
  let ?x = "SaveToExcel (sanitize_filename output_file_suffix) (business_list s)"
  let ?c = "SaveToCsv (sanitize_filename output_file_suffix) (business_list s)"
  obtain r w where ow: "on_act E ?x (world s) = (r, w)" by (cases "on_act E ?x (world s)")
  let ?s1 = "s\<lparr>world := w, events := events s @ [Call ?x]\<rparr>"
  have s1: "since t ok ?s1"
    by (rule since_call[OF assms(1)]) (simp add: saves_ok_def assms(2))
  have a1: "act E ?x s = ((case r of None \<Rightarrow> Inr () | Some e \<Rightarrow> Inl e), ?s1)"
    using ow by (simp add: act_def)
  show ?thesis
  proof (cases r)
    case (Some e)
    have "save_results E output_file_suffix s = (Inl e, ?s1)"
      by (simp add: save_results_apply a1 Some)
    then show ?thesis using s1 by simp
  next
    case None
    obtain r' w' where ow': "on_act E ?c w = (r', w')" by (cases "on_act E ?c w")
    let ?s2 = "?s1\<lparr>world := w', events := events ?s1 @ [Call ?c]\<rparr>"
    have s2: "since t ok ?s2"
      by (rule since_call[OF s1]) (simp add: saves_ok_def assms(2))
    have a2: "act E ?c ?s1 = ((case r' of None \<Rightarrow> Inr () | Some e \<Rightarrow> Inl e), ?s2)"
      using ow' by (simp add: act_def)
    have "snd (save_results E output_file_suffix s) = ?s2"
      by (simp add: save_results_apply a1 None a2)
    then show ?thesis using s2 by simp
  qed
qed

lemma extract_and_save_since:
  fixes E :: "('w, 'f) env"
  assumes ok: "\<And>bs. length bs = length (slice_to total' [0 ..< found]) \<Longrightarrow> ok bs"
  shows "leads (since t ok)
           (extract_and_save E page local_browser proxy_context viewport_width viewport_height
              user_agent total' found output_file_suffix)
           (since t ok)"
proof (rule leadsI)
  fix s :: "('w, 'f) st"
  assume s: "since t ok s"
  let ?ls = "slice_to total' [0 ..< found]"
  let ?s0 = "s\<lparr>business_list := []\<rparr>"
  let ?loop = "process_listings E page local_browser proxy_context viewport_width
                 viewport_height user_agent ?ls"
  have s0: "since t ok ?s0" using s by (simp add: since_def)
  obtain r s1 where l: "?loop ?s0 = (r, s1)" by (cases "?loop ?s0")
  have "leads (since t ok) ?loop (since t ok)"
    by (intro keeps_process_listings[OF stable_since] harmless_saves_ok
          var_stable_since list_stable_since)
  then have s1: "since t ok s1" using s0 l by (simp add: leads_def) (metis snd_conv)
  show "since t ok (snd (extract_and_save E page local_browser proxy_context viewport_width
                           viewport_height user_agent total' found output_file_suffix s))"
  proof (cases r)
    case (Inl e)
    then show ?thesis using l s1 by (simp add: extract_and_save_def andthen_def bnd_def)
  next
    case (Inr u)
    then have "length (business_list s1) = length (business_list ?s0) + length ?ls"
      using process_listings_appends l by blast
    then have "ok (business_list s1)" using ok by simp
    then have "since t ok (snd (save_results E output_file_suffix s1))"
      using s1 by (intro save_results_since)
    then show ?thesis using l Inr by (simp add: extract_and_save_def andthen_def bnd_def)
  qed
qed

lemma length_slice_to: "0 \<le> n \<Longrightarrow> int (length (slice_to n xs)) \<le> n"
  by (simp add: slice_to_def)

lemma bounded_by_slice:
  "0 \<le> n \<Longrightarrow> length bs = length (slice_to n xs) \<Longrightarrow> int (length bs) \<le> n"
  by (simp add: slice_to_def)

text \<open>
  The size of what is written: for a target count \<^verbatim>\<open>total\<close> that is not negative, every
  list of records that a run of \<^verbatim>\<open>scrape_google_maps\<close> hands to an output file has at
  most \<^verbatim>\<open>total\<close> records, and the list handed over has as many records as listings were
  processed, the listings being the first \<^verbatim>\<open>total\<close> of the place links found.  This
  counts the records only; which listing a record belongs to is another matter, see the
  run with a failing click below.
\<close>

theorem saved_records_bounded:
  "(0 \<le> total' \<longrightarrow>
      since (events s) (\<lambda>bs. int (length bs) \<le> total')
        (snd (scrape_google_maps E proxy_server proxy_username proxy_password user_agent
                delay total' suburb state s))) \<and>
   since (events s) (\<lambda>bs. length bs = length (slice_to total' [0 ..< found]))
     (snd (extract_and_save E page local_browser proxy_context viewport_width viewport_height
             user_agent total' found output_file_suffix s))"
proof (intro conjI impI)
  assume t: "0 \<le> total'"
  have "leads (since (events s) (\<lambda>bs. int (length bs) \<le> total'))
          (scrape_google_maps E proxy_server proxy_username proxy_password user_agent delay
             total' suburb state)
          (since (events s) (\<lambda>bs. int (length bs) \<le> total'))"
    by (intro keeps_scrape_google_maps[OF stable_since] harmless_saves_ok
          extract_and_save_since) (assumption, erule bounded_by_slice[OF t])
  then show "since (events s) (\<lambda>bs. int (length bs) \<le> total')
        (snd (scrape_google_maps E proxy_server proxy_username proxy_password user_agent
                delay total' suburb state s))"
    by (rule leadsD) (rule since_refl)
next
  show "since (events s) (\<lambda>bs. length bs = length (slice_to total' [0 ..< found]))
     (snd (extract_and_save E page local_browser proxy_context viewport_width viewport_height
             user_agent total' found output_file_suffix s))"
    by (rule leadsD[OF extract_and_save_since]) (simp_all add: since_refl)
qed

theorem saved_records_bounded_sample:
  "(0::int) \<le> 40 \<and>
   since [] (\<lambda>bs. int (length bs) \<le> 40)
     (snd (scrape_google_maps quiet_env ''http://proxy.example:8080'' ''user'' ''secret''
             ''Mozilla/5.0'' 3 40 ''Fitzroy'' ''VIC'' (start ()))) \<and>
   since [] (\<lambda>bs. length bs = length (slice_to 40 [0 ..< 55]))
     (snd (extract_and_save quiet_env 3 1 2 1280 800 ''Mozilla/5.0'' 40 55 ''Fitzroy_VIC''
             (start ())))"
  using saved_records_bounded[where total' = 40 and s = "start ()" and E = quiet_env
          and proxy_server = "''http://proxy.example:8080''" and proxy_username = "''user''"
          and proxy_password = "''secret''" and user_agent = "''Mozilla/5.0''" and delay = 3
          and suburb = "''Fitzroy''" and state = "''VIC''" and found = 55 and page = 3
          and local_browser = 1 and proxy_context = 2 and viewport_width = 1280
          and viewport_height = 800 and output_file_suffix = "''Fitzroy_VIC''"]
  by (simp add: start_def)

section \<open>The listing loader\<close>

lemma scrolls_append [simp]: "scrolls (xs @ ys) = scrolls xs + scrolls ys"
  by (simp add: scrolls_def)

lemma scrolls_single [simp]: "scrolls [ev] = (if is_scroll ev then 1 else 0)"
  by (simp add: scrolls_def)

lemma stable_budget:
  "stable (\<lambda>ev. \<not> is_scroll ev) (\<lambda>s. scrolls (events s) + n \<le> B)"
  by (simp add: stable_def)

lemma leads_bnd_keep:
  "leads P m P \<Longrightarrow> (\<And>x. leads P (f x) R) \<Longrightarrow> (\<And>s. P s \<Longrightarrow> R s) \<Longrightarrow> leads P (bnd m f) R"
  by (rule leads_bnd)

lemma leads_andthen_keep:
  "leads P m P \<Longrightarrow> leads P k R \<Longrightarrow> (\<And>s. P s \<Longrightarrow> R s) \<Longrightarrow> leads P (andthen m k) R"
  by (rule leads_andthen)

lemma leads_ret_weak: "(\<And>s. P s \<Longrightarrow> R s) \<Longrightarrow> leads P (ret x) R"
  by (simp add: leads_def)

lemma scroll_step_budget:
  "leads (\<lambda>s. scrolls (events s) + Suc n \<le> B) (ask_flag E (ScrollPanel page))
         (\<lambda>s. scrolls (events s) + n \<le> B)"
  by (simp add: leads_def ask_flag_def split: prod.splits)

lemma scroll_loop_budget:
  "leads (\<lambda>s. scrolls (events s) + (max_scrolls - scroll_count) \<le> B)
     (scroll_loop E page required_items max_scrolls previous_count scroll_count)
     (\<lambda>s. scrolls (events s) \<le> B)"
proof (induction E page required_items max_scrolls previous_count scroll_count
    rule: scroll_loop.induct)
  case (1 E page required_items max_scrolls previous_count scroll_count)
  let ?P = "\<lambda>s :: ('a, 'b) st. scrolls (events s) + (max_scrolls - scroll_count) \<le> B"
  let ?P' = "\<lambda>s :: ('a, 'b) st. scrolls (events s) + (max_scrolls - Suc scroll_count) \<le> B"
  let ?R = "\<lambda>s :: ('a, 'b) st. scrolls (events s) \<le> B"
  note st = stable_budget[of "max_scrolls - scroll_count" B]
  note st' = stable_budget[of "max_scrolls - Suc scroll_count" B]
  have PR: "\<And>s. ?P s \<Longrightarrow> ?R s" by simp
  have P'R: "\<And>s. ?P' s \<Longrightarrow> ?R s" by simp
  show ?case
  proof (cases "scroll_count < max_scrolls")
    case False
    then show ?thesis
      by (subst scroll_loop.simps) (simp add: leads_def)
  next
    case True
    then have suc: "max_scrolls - scroll_count = Suc (max_scrolls - Suc scroll_count)"
      by simp
    have step: "leads ?P (ask_flag E (ScrollPanel page)) ?P'"
      unfolding suc by (rule scroll_step_budget)
    have recheck:
      "\<And>current_count. leads ?P
         (if current_count = previous_count
          then andthen (log (NoNewResults scroll_count))
               (andthen (act E (WaitForTimeout page 20000))
               (bnd (ask_count E (LocatorAll page PlaceLinks)) (\<lambda>current_count.
                  if current_count = previous_count
                  then andthen (log (StoppingScroll scroll_count)) (ret None)
                  else ret (Some current_count))))
          else ret (Some current_count)) ?P"
      by (intro keeps_intros keeps_log[OF st] keeps_act[OF st] keeps_ask_count[OF st]; simp)
    have tail: "\<And>current_count scrolled. \<not> required_items \<le> int c0 \<Longrightarrow> leads ?P'
         (if \<not> scrolled
          then andthen (log UnableToScroll) (ret scroll_count)
          else andthen (act E (WaitForTimeout page 3000))
               (scroll_loop E page required_items max_scrolls current_count
                  (Suc scroll_count))) ?R" for c0
    proof -
      fix current_count scrolled
      assume c0: "\<not> required_items \<le> int c0"
      show "leads ?P'
         (if \<not> scrolled
          then andthen (log UnableToScroll) (ret scroll_count)
          else andthen (act E (WaitForTimeout page 3000))
               (scroll_loop E page required_items max_scrolls current_count
                  (Suc scroll_count))) ?R"
      proof (cases scrolled)
        case False
        then show ?thesis
          by (simp only: not_False_eq_True if_True)
             (intro leads_andthen_keep keeps_log[OF st'] leads_ret_weak; simp)
      next
        case True
        have ih: "leads ?P' (scroll_loop E page required_items max_scrolls current_count
                    (Suc scroll_count)) ?R"
          using "1.IH"[of c0 True current_count] c0 \<open>scroll_count < max_scrolls\<close>
          by simp
        show ?thesis using True
          by (simp only: not_True_eq_False if_False)
             (intro leads_andthen_keep keeps_act[OF st'] ih; simp)
      qed
    qed
    show ?thesis
      apply (subst scroll_loop.simps)
      apply (simp only: True if_True)
      apply (rule leads_bnd_keep[OF keeps_ask_count[OF st]])
        apply simp
       apply (rule leads_andthen_keep[OF keeps_log[OF st]])
         apply simp
        apply (rule leads_if)
         apply (intro leads_andthen_keep keeps_log[OF st] leads_ret_weak; simp)
        apply (rule leads_bnd_keep[OF recheck])
         apply (rule leads_case_option)
          apply (rule leads_ret_weak, simp)
         apply (rule leads_bnd[OF step])
          apply (rule tail, assumption)
         apply simp
        apply simp
       apply simp
      apply simp
      done
  qed
qed

lemma scroll_to_load_more_budget:
  "leads (\<lambda>s. scrolls (events s) + max_scrolls \<le> B)
     (scroll_to_load_more E page required_items max_scrolls)
     (\<lambda>s. scrolls (events s) \<le> B)"
proof -
  note st = stable_budget[of max_scrolls B]
  note st0 = stable_budget[of 0 B, simplified]
  have loop: "leads (\<lambda>s. scrolls (events s) + max_scrolls \<le> B)
                (scroll_loop E page required_items max_scrolls 0 0)
                (\<lambda>s. scrolls (events s) \<le> B)"
    using scroll_loop_budget[of max_scrolls 0 B E page required_items 0] by simp
  have after: "\<And>scroll_count. leads (\<lambda>s. scrolls (events s) \<le> B)
                 (bnd (ask_count E (LocatorAll page PlaceLinks)) (\<lambda>final_count.
                    if int final_count < required_items
                    then log (OnlyLoaded final_count required_items scroll_count)
                    else log (FinalCount final_count)))
                 (\<lambda>s. scrolls (events s) \<le> B)"
    by (intro keeps_intros keeps_log[OF st0] keeps_ask_count[OF st0]; simp)
  have body: "leads (\<lambda>s. scrolls (events s) + max_scrolls \<le> B)
                (bnd (ask_flag E (FindPanel page)) (\<lambda>results_panel.
                   if \<not> results_panel then log PanelNotFound
                   else
                     bnd (scroll_loop E page required_items max_scrolls 0 0) (\<lambda>scroll_count.
                     bnd (ask_count E (LocatorAll page PlaceLinks)) (\<lambda>final_count.
                       if int final_count < required_items
                       then log (OnlyLoaded final_count required_items scroll_count)
                       else log (FinalCount final_count)))))
                (\<lambda>s. scrolls (events s) \<le> B)"
    apply (rule leads_bnd_keep[OF keeps_ask_flag[OF st]])
      apply simp
     apply (rule leads_if)
      apply (rule leads_weaken[OF keeps_log[OF st0]]; simp)
     apply (rule leads_bnd[OF loop after])
     apply simp
    apply simp
    done
  show ?thesis
    unfolding scroll_to_load_more_def
    by (rule leads_try_except[OF body keeps_log[OF st0]]) simp_all
qed

lemma scroll_loop_reached:
  assumes "scroll_count < max_scrolls"
    and "on_count E (LocatorAll page PlaceLinks) (world s) = (Inr c, w)"
    and "required_items \<le> int c"
  shows "scroll_loop E page required_items max_scrolls previous_count scroll_count s =
           (Inr scroll_count,
            s\<lparr>world := w,
              events := events s @
                [Call (LocatorAll page PlaceLinks), Log (Scrolling c),
                 Log (RequiredReached required_items scroll_count)]\<rparr>)"
  using assms
  by (subst scroll_loop.simps) (simp add: bnd_def andthen_def ask_count_def)

lemma scroll_loop_stalled:
  assumes "scroll_count < max_scrolls"
    and "on_count E (LocatorAll page PlaceLinks) (world s) = (Inr k, w1)"
    and "int k < required_items"
    and "k = previous_count"
    and "on_act E (WaitForTimeout page 20000) w1 = (None, w2)"
    and "on_count E (LocatorAll page PlaceLinks) w2 = (Inr k, w3)"
  shows "scroll_loop E page required_items max_scrolls previous_count scroll_count s =
           (Inr scroll_count,
            s\<lparr>world := w3,
              events := events s @
                [Call (LocatorAll page PlaceLinks), Log (Scrolling k),
                 Log (NoNewResults scroll_count), Call (WaitForTimeout page 20000),
                 Call (LocatorAll page PlaceLinks), Log (StoppingScroll scroll_count)]\<rparr>)"
  using assms
  by (subst scroll_loop.simps) (simp add: bnd_def andthen_def ask_count_def act_def)

text \<open>
  Claim C5, as stated: the loader stops as soon as the rendered item count reaches N,
  checked before any further scroll.  It fails where the count stands still at first
  and the recount after the grace wait finds N items or more: that recount is compared
  with the previous count only, so the loader scrolls once more and waits before it
  measures the count against N.  With N = 40 and 50 items rendered after 20 seconds,
  the panel is scrolled after the count of 50 was taken.
\<close>

theorem C5_counterexample:
  "events (snd (scroll_to_load_more late_feed_env 0 40 10 (start 0))) =
     [Call (FindPanel 0), Call (LocatorAll 0 PlaceLinks), Log (Scrolling 0),
      Log (NoNewResults 0), Call (WaitForTimeout 0 20000), Call (LocatorAll 0 PlaceLinks),
      Call (ScrollPanel 0), Call (WaitForTimeout 0 3000), Call (LocatorAll 0 PlaceLinks),
      Log (Scrolling 50), Log (RequiredReached 40 1), Call (LocatorAll 0 PlaceLinks),
      Log (FinalCount 50)]"
  unfolding scroll_to_load_more_def
  apply (subst scroll_loop.simps)
  apply (subst scroll_loop.simps)
  apply (simp add: late_feed_env_def start_def bnd_def andthen_def ask_count_def ask_flag_def
      act_def try_except_def log_def ret_def)
  done

text \<open>
  Claim C5, amended: the loop of the listing loader stops as soon as the count of
  rendered items taken at the start of an iteration has reached the required number,
  before any further scroll or wait; when that count is below the required number and
  equal to the previous one, it waits the grace period once, counts again, and, the
  count still being the same, stops and reports that no additional results came; and
  the loader never scrolls more often than \<open>max_scrolls\<close> times.
\<close>

theorem C5_listing_loader:
  "(scroll_count < max_scrolls \<and>
    on_count E (LocatorAll page PlaceLinks) (world s) = (Inr c, w) \<and>
    required_items \<le> int c \<longrightarrow>
      scroll_loop E page required_items max_scrolls previous_count scroll_count s =
        (Inr scroll_count,
         s\<lparr>world := w,
           events := events s @
             [Call (LocatorAll page PlaceLinks), Log (Scrolling c),
              Log (RequiredReached required_items scroll_count)]\<rparr>)) \<and>
   (scroll_count < max_scrolls \<and>
    on_count E (LocatorAll page PlaceLinks) (world s) = (Inr k, w1) \<and>
    int k < required_items \<and> k = previous_count \<and>
    on_act E (WaitForTimeout page 20000) w1 = (None, w2) \<and>
    on_count E (LocatorAll page PlaceLinks) w2 = (Inr k, w3) \<longrightarrow>
      scroll_loop E page required_items max_scrolls previous_count scroll_count s =
        (Inr scroll_count,
         s\<lparr>world := w3,
           events := events s @
             [Call (LocatorAll page PlaceLinks), Log (Scrolling k),
              Log (NoNewResults scroll_count), Call (WaitForTimeout page 20000),
              Call (LocatorAll page PlaceLinks), Log (StoppingScroll scroll_count)]\<rparr>)) \<and>
   scrolls (events (snd (scroll_to_load_more E page required_items max_scrolls s)))
     \<le> scrolls (events s) + max_scrolls"
proof (intro conjI impI)
  show "scrolls (events (snd (scroll_to_load_more E page required_items max_scrolls s)))
     \<le> scrolls (events s) + max_scrolls"
    by (rule leadsD[OF scroll_to_load_more_budget]) simp
qed (simp_all add: scroll_loop_reached scroll_loop_stalled)

theorem C5_witness:
  "scroll_loop quiet_env 0 0 10 0 0 (start ()) =
     (Inr 0,
      start ()\<lparr>world := (),
        events := events (start ()) @
          [Call (LocatorAll 0 PlaceLinks), Log (Scrolling 0), Log (RequiredReached 0 0)]\<rparr>) \<and>
   scroll_loop quiet_env 0 40 10 0 0 (start ()) =
     (Inr 0,
      start ()\<lparr>world := (),
        events := events (start ()) @
          [Call (LocatorAll 0 PlaceLinks), Log (Scrolling 0), Log (NoNewResults 0),
           Call (WaitForTimeout 0 20000), Call (LocatorAll 0 PlaceLinks),
           Log (StoppingScroll 0)]\<rparr>) \<and>
   scrolls (events (snd (scroll_to_load_more quiet_env 0 40 10 (start ())))) \<le>
     scrolls (events (start () :: (unit, nat) st)) + 10"
proof -
  have q1: "on_count quiet_env (LocatorAll 0 PlaceLinks) (world (start ())) = (Inr 0, ())"
    by (simp add: quiet_env_def)
  have q2: "on_act quiet_env (WaitForTimeout 0 20000) () = (None, ())"
    by (simp add: quiet_env_def)
  have q3: "on_count quiet_env (LocatorAll 0 PlaceLinks) () = (Inr 0, ())"
    by (simp add: quiet_env_def)
  note a = C5_listing_loader[where E = quiet_env and page = 0 and required_items = 0
          and max_scrolls = 10 and previous_count = 0 and scroll_count = 0
          and s = "start ()" and c = 0 and w = "()"]
  note b = C5_listing_loader[where E = quiet_env and page = 0 and required_items = 40
          and max_scrolls = 10 and previous_count = 0 and scroll_count = 0
          and s = "start ()" and k = 0 and ?w1.0 = "()" and ?w2.0 = "()" and ?w3.0 = "()"]
  have r1: "scroll_loop quiet_env 0 0 10 0 0 (start ()) =
     (Inr 0,
      start ()\<lparr>world := (),
        events := events (start ()) @
          [Call (LocatorAll 0 PlaceLinks), Log (Scrolling 0), Log (RequiredReached 0 0)]\<rparr>)"
    by (rule a[THEN conjunct1, rule_format]) (simp add: q1 q3)
  have r2: "scroll_loop quiet_env 0 40 10 0 0 (start ()) =
     (Inr 0,
      start ()\<lparr>world := (),
        events := events (start ()) @
          [Call (LocatorAll 0 PlaceLinks), Log (Scrolling 0), Log (NoNewResults 0),
           Call (WaitForTimeout 0 20000), Call (LocatorAll 0 PlaceLinks),
           Log (StoppingScroll 0)]\<rparr>)"
    by (rule b[THEN conjunct2, THEN conjunct1, rule_format]) (simp add: q1 q2 q3)
  have r3: "scrolls (events (snd (scroll_to_load_more quiet_env 0 40 10 (start ())))) \<le>
     scrolls (events (start () :: (unit, nat) st)) + 10"
    by (rule b[THEN conjunct2, THEN conjunct2])
  from r1 r2 r3 show ?thesis by (intro conjI)
qed

section \<open>Coordinates of a place URL\<close>

subsection \<open>Splitting\<close>

lemma split_from_nonempty: "split_from sep cur s \<noteq> []"
  by (induction sep cur s rule: split_from.induct) auto

lemma split_from_single_none: "a \<notin> set s \<Longrightarrow> split_from [a] cur s = [cur @ s]"
  by (induction s arbitrary: cur) auto

lemma split_from_single_cut:
  "a \<notin> set x \<Longrightarrow> split_from [a] cur (x @ a # r) = (cur @ x) # split_from [a] [] r"
  by (induction x arbitrary: cur) auto

lemma hd_split_from_single:
  "hd (split_from [a] cur s) = cur @ takeWhile (\<lambda>c. c \<noteq> a) s"
  by (induction s arbitrary: cur) auto

lemma split_from_pair_none:
  "\<not> sublist [a, b] s \<Longrightarrow> split_from [a, b] cur s = [cur @ s]"
proof (induction s arbitrary: cur)
  case Nil
  show ?case by simp
next
  case (Cons c cs)
  have np: "\<not> prefix [a, b] (c # cs)"
    using Cons.prems prefix_imp_sublist by blast
  have ns: "\<not> sublist [a, b] cs"
    using Cons.prems by (meson sublist_Cons_right)
  show ?case using np Cons.IH[OF ns] by simp
qed

lemma split_from_skip:
  "\<not> prefix sep (c # cs) \<Longrightarrow> split_from sep cur (c # cs) = split_from sep (cur @ [c]) cs"
  by simp

lemma split_from_cut_pair:
  "split_from [a, b] cur (a # b # r) = cur # split_from [a, b] [] r"
  by simp

lemma last_split_from_pair:
  assumes ab: "a \<noteq> b" and t: "\<not> sublist [a, b] t"
  shows "last (split_from [a, b] cur (pre @ a # b # t)) = t"
proof (induction pre arbitrary: cur rule: length_induct)
  case (1 pre)
  show ?case
  proof (cases pre)
    case Nil
    then show ?thesis by (simp add: split_from_pair_none[OF t])
  next
    case (Cons c pre')
    show ?thesis
    proof (cases "prefix [a, b] (c # pre' @ a # b # t)")
      case False
      have len: "length pre' < length pre" using Cons by simp
      have "split_from [a, b] cur (pre @ a # b # t) =
            split_from [a, b] (cur @ [c]) (pre' @ a # b # t)"
        unfolding Cons append_Cons by (rule split_from_skip[OF False])
      then show ?thesis using 1[rule_format, OF len, of "cur @ [c]"] by simp
    next
      case True
      then have ca: "c = a" and pb: "prefix [b] (pre' @ a # b # t)" by auto
      have "pre' \<noteq> []" using pb ab by auto
      then obtain d pre'' where p': "pre' = d # pre''" by (cases pre') auto
      have db: "d = b" using pb p' by simp
      have len: "length pre'' < length pre" using Cons p' by simp
      have "split_from [a, b] cur (pre @ a # b # t) =
            cur # split_from [a, b] [] (pre'' @ a # b # t)"
        unfolding Cons p' ca db append_Cons by (rule split_from_cut_pair)
      then show ?thesis
        using 1[rule_format, OF len, of "[]"]
          split_from_nonempty[of "[a, b]" "[]" "pre'' @ a # b # t"]
        by simp
    qed
  qed
qed

lemma index_first: "xs \<noteq> [] \<Longrightarrow> index xs 0 = Inr (hd xs)"
  by (cases xs) (simp_all add: index_def)

lemma index_last: "xs \<noteq> [] \<Longrightarrow> index xs (- 1) = Inr (last xs)"
  by (simp add: index_def last_conv_nth nat_diff_distrib' Suc_leI)

lemma index_second: "index (x # y # ys) 1 = Inr y"
  by (simp add: index_def)

lemma index_second_none: "index [x] 1 = Inl IndexError"
  by (simp add: index_def)

subsection \<open>The text that is read\<close>

lemma last_piece:
  assumes "url = tail \<or> url = pre @ ''/@'' @ tail" and t: "\<not> sublist ''/@'' tail"
  shows "index (split ''/@'' url) (- 1) = Inr tail"
proof -
  have "last (split ''/@'' url) = tail"
    using assms(1)
  proof
    assume "url = tail"
    then show ?thesis unfolding split_def by (simp add: split_from_pair_none[OF t])
  next
    assume u: "url = pre @ ''/@'' @ tail"
    have "last (split_from ''/@'' [] (pre @ CHR ''/'' # CHR ''@'' # tail)) = tail"
      by (rule last_split_from_pair[OF _ t]) simp
    then show ?thesis unfolding split_def u by simp
  qed
  then show ?thesis
    unfolding split_def by (simp add: index_last split_from_nonempty)
qed

lemma first_piece:
  "index (split [a] s) 0 = Inr (takeWhile (\<lambda>c. c \<noteq> a) s)"
  unfolding split_def by (simp add: index_first split_from_nonempty hd_split_from_single)

lemma takeWhile_through:
  assumes "a \<notin> set x"
  shows "takeWhile (\<lambda>c. c \<noteq> a) (x @ rest) = x @ takeWhile (\<lambda>c. c \<noteq> a) rest"
  using assms by (induction x) auto

lemma takeWhile_piece:
  assumes "a \<notin> set x" and "rest = [] \<or> hd rest = a"
  shows "takeWhile (\<lambda>c. c \<noteq> a) (x @ rest) = x"
proof -
  have "takeWhile (\<lambda>c. c \<noteq> a) rest = []"
    using assms(2) by (cases rest) auto
  then show ?thesis unfolding takeWhile_through[OF assms(1)] by simp
qed

lemma ends_piece_cut:
  assumes "ends_piece rest"
  shows "takeWhile (\<lambda>c. c \<noteq> CHR ''/'') rest = [] \<or>
         hd (takeWhile (\<lambda>c. c \<noteq> CHR ''/'') rest) = CHR '',''"
  using assms unfolding ends_piece_def by (cases rest) auto

lemma coordinates_one:
  assumes "plain lat" and "rest = [] \<or> hd rest = CHR ''/''"
  shows "index (split ''/'' (lat @ rest)) 0 = Inr lat"
  unfolding first_piece using assms by (simp add: takeWhile_piece plain_def)

lemma coordinates_two:
  assumes "plain lat" and "plain lon" and "ends_piece rest"
  shows "\<exists>rest'. index (split ''/'' (lat @ '','' @ lon @ rest)) 0 = Inr (lat @ '','' @ lon @ rest') \<and>
           (rest' = [] \<or> hd rest' = CHR '','')"
proof -
  have "CHR ''/'' \<notin> set (lat @ '','' @ lon)" using assms(1,2) by (simp add: plain_def)
  then have "takeWhile (\<lambda>c. c \<noteq> CHR ''/'') ((lat @ '','' @ lon) @ rest) =
             (lat @ '','' @ lon) @ takeWhile (\<lambda>c. c \<noteq> CHR ''/'') rest"
    by (rule takeWhile_through)
  then show ?thesis
    unfolding first_piece using ends_piece_cut[OF assms(3)] by auto
qed

lemma coordinates_any:
  assumes "plain first" and "ends_piece rest"
  shows "\<exists>c. index (split ''/'' (first @ rest)) 0 = Inr c \<and>
           index (split '','' c) 0 = Inr first"
proof -
  have a: "CHR ''/'' \<notin> set first" and b: "CHR '','' \<notin> set first"
    using assms(1) by (simp_all add: plain_def)
  let ?r = "takeWhile (\<lambda>c. c \<noteq> CHR ''/'') rest"
  have c: "takeWhile (\<lambda>c. c \<noteq> CHR ''/'') (first @ rest) = first @ ?r"
    by (rule takeWhile_through[OF a])
  have "takeWhile (\<lambda>c. c \<noteq> CHR '','') (first @ ?r) = first"
    using ends_piece_cut[OF assms(2)] by (intro takeWhile_piece[OF b]) simp
  then show ?thesis unfolding first_piece c by simp
qed

lemma pieces_two:
  assumes "plain lat" and "plain lon" and "rest' = [] \<or> hd rest' = CHR '',''"
  shows "index (split '','' (lat @ '','' @ lon @ rest')) 0 = Inr lat \<and>
         index (split '','' (lat @ '','' @ lon @ rest')) 1 = Inr lon"
proof -
  have a: "CHR '','' \<notin> set lat" and b: "CHR '','' \<notin> set lon"
    using assms(1,2) by (simp_all add: plain_def)
  have s: "split '','' (lat @ '','' @ lon @ rest') = lat # split_from '','' [] (lon @ rest')"
    unfolding split_def using split_from_single_cut[OF a, of "[]" "lon @ rest'"] by simp
  obtain y ys where ys: "split_from '','' [] (lon @ rest') = y # ys"
    using split_from_nonempty[of "'',''" "[]" "lon @ rest'"] by (cases "split_from '','' [] (lon @ rest')") auto
  have "hd (split_from '','' [] (lon @ rest')) = lon"
    unfolding hd_split_from_single using takeWhile_piece[OF b assms(3)] by simp
  then have "y = lon" using ys by simp
  then show ?thesis unfolding s ys by (simp add: index_first index_second)
qed

lemma pieces_one:
  assumes "plain lat"
  shows "index (split '','' lat) 0 = Inr lat \<and> index (split '','' lat) 1 = Inl IndexError"
proof -
  have "CHR '','' \<notin> set lat" using assms by (simp add: plain_def)
  then have "split '','' lat = [lat]"
    unfolding split_def by (simp add: split_from_single_none)
  then show ?thesis by (simp add: index_first index_second_none)
qed

lemma extract_coordinates_two:
  assumes u: "url = tail \<or> url = pre @ ''/@'' @ tail" and t: "\<not> sublist ''/@'' tail"
    and tl: "tail = lat @ '','' @ lon @ rest"
    and p: "plain lat" "plain lon" "ends_piece rest"
  shows "extract_coordinates_from_url to_float url =
           (case to_float lat of
              None \<Rightarrow> Inl (ValueError lat)
            | Some a \<Rightarrow>
                (case to_float lon of
                   None \<Rightarrow> Inl (ValueError lon)
                 | Some b \<Rightarrow> Inr (a, b)))"
proof -
  obtain rest' where c: "index (split ''/'' tail) 0 = Inr (lat @ '','' @ lon @ rest')"
    and r: "rest' = [] \<or> hd rest' = CHR '',''"
    using coordinates_two[OF p] unfolding tl by blast
  note q = pieces_two[OF p(1,2) r]
  show ?thesis
    unfolding extract_coordinates_from_url_def last_piece[OF u t]
    using c q by (simp add: or_raise_def split: option.splits)
qed

lemma extract_coordinates_first:
  assumes u: "url = tail \<or> url = pre @ ''/@'' @ tail" and t: "\<not> sublist ''/@'' tail"
    and tl: "tail = first @ rest"
    and p: "plain first" "ends_piece rest"
    and f: "to_float first = None"
  shows "extract_coordinates_from_url to_float url = Inl (ValueError first)"
proof -
  obtain c where c: "index (split ''/'' tail) 0 = Inr c"
    and q: "index (split '','' c) 0 = Inr first"
    using coordinates_any[OF p] unfolding tl by blast
  show ?thesis
    unfolding extract_coordinates_from_url_def last_piece[OF u t]
    using c q f by (simp add: or_raise_def)
qed

lemma extract_coordinates_one:
  assumes u: "url = tail \<or> url = pre @ ''/@'' @ tail" and t: "\<not> sublist ''/@'' tail"
    and tl: "tail = lat @ rest"
    and p: "plain lat" "rest = [] \<or> hd rest = CHR ''/''"
    and f: "to_float lat = Some a"
  shows "extract_coordinates_from_url to_float url = Inl IndexError"
proof -
  have c: "index (split ''/'' tail) 0 = Inr lat"
    unfolding tl by (rule coordinates_one[OF p])
  note q = pieces_one[OF p(1)]
  show ?thesis
    unfolding extract_coordinates_from_url_def last_piece[OF u t]
    using c q f by (simp add: or_raise_def)
qed

subsection \<open>The claim\<close>

text \<open>
  Claim C7, as stated: for every URL containing a \<^verbatim>\<open>/@lat,lon,...\<close> segment with numeric
  lat and lon the embedded pair is returned, and every URL lacking such a segment fails.
  Both halves fail.  The text after the last \<^verbatim>\<open>/@\<close> is the one read, so a URL whose
  segment \<^verbatim>\<open>/@37,144,17z\<close> is followed by a later \<^verbatim>\<open>/@\<close> raises instead of returning
  (37, 144); and with no \<^verbatim>\<open>/@\<close> at all the whole string is read, so \<^verbatim>\<open>37,144\<close>, which
  has no such segment, yields a pair.
\<close>

theorem C7_counterexample:
  "extract_coordinates_from_url float_of_digits
     ''https://www.google.com/maps/place/A/@37,144,17z/data=x/@home'' = Inl (ValueError ''home'') \<and>
   extract_coordinates_from_url float_of_digits ''37,144'' = Inr (37, 144)"
  by (simp add: extract_coordinates_from_url_def split_def index_def or_raise_def
      float_of_digits_def ascii_digit_def digit_value_def)

text \<open>
  Claim C7, amended: coordinate extraction reads the text \<open>tail\<close> after the last \<^verbatim>\<open>/@\<close>
  of the URL, or the whole URL when it has no \<^verbatim>\<open>/@\<close>.  When \<open>tail\<close> is \<^verbatim>\<open>lat,lon\<close>
  followed by nothing, a comma or a slash, and \<^verbatim>\<open>float\<close> accepts lat and lon, it returns
  exactly the pair of these two numbers.  It fails with the \<^verbatim>\<open>ValueError\<close> of \<^verbatim>\<open>float\<close>
  when \<^verbatim>\<open>float\<close> rejects the first piece of \<open>tail\<close>, or accepts it and rejects the
  second one, and with an \<^verbatim>\<open>IndexError\<close> when the first piece is accepted and no comma
  follows it before the next slash.
\<close>

theorem C7_extract_coordinates:
  "(url = tail \<or> url = pre @ ''/@'' @ tail) \<and> \<not> sublist ''/@'' tail \<Longrightarrow>
   (tail = lat @ '','' @ lon @ rest \<and> plain lat \<and> plain lon \<and> ends_piece rest \<and>
    to_float lat = Some a \<and> to_float lon = Some b \<longrightarrow>
      extract_coordinates_from_url to_float url = Inr (a, b)) \<and>
   (tail = lat @ rest \<and> plain lat \<and> ends_piece rest \<and> to_float lat = None \<longrightarrow>
      extract_coordinates_from_url to_float url = Inl (ValueError lat)) \<and>
   (tail = lat @ '','' @ lon @ rest \<and> plain lat \<and> plain lon \<and> ends_piece rest \<and>
    to_float lat = Some a \<and> to_float lon = None \<longrightarrow>
      extract_coordinates_from_url to_float url = Inl (ValueError lon)) \<and>
   (tail = lat @ rest \<and> plain lat \<and> (rest = [] \<or> hd rest = CHR ''/'') \<and>
    to_float lat = Some a \<longrightarrow>
      extract_coordinates_from_url to_float url = Inl IndexError)"
proof -
  assume "(url = tail \<or> url = pre @ ''/@'' @ tail) \<and> \<not> sublist ''/@'' tail"
  then have u: "url = tail \<or> url = pre @ ''/@'' @ tail" and t: "\<not> sublist ''/@'' tail"
    by simp_all
  show ?thesis
  proof (intro conjI impI)
    assume "tail = lat @ '','' @ lon @ rest \<and> plain lat \<and> plain lon \<and> ends_piece rest \<and>
      to_float lat = Some a \<and> to_float lon = Some b"
    then show "extract_coordinates_from_url to_float url = Inr (a, b)"
      using extract_coordinates_two[OF u t, of lat lon rest to_float] by simp
  next
    assume "tail = lat @ rest \<and> plain lat \<and> ends_piece rest \<and> to_float lat = None"
    then show "extract_coordinates_from_url to_float url = Inl (ValueError lat)"
      using extract_coordinates_first[OF u t, of lat rest to_float] by simp
  next
    assume "tail = lat @ '','' @ lon @ rest \<and> plain lat \<and> plain lon \<and> ends_piece rest \<and>
      to_float lat = Some a \<and> to_float lon = None"
    then show "extract_coordinates_from_url to_float url = Inl (ValueError lon)"
      using extract_coordinates_two[OF u t, of lat lon rest to_float] by simp
  next
    assume "tail = lat @ rest \<and> plain lat \<and> (rest = [] \<or> hd rest = CHR ''/'') \<and>
      to_float lat = Some a"
    then show "extract_coordinates_from_url to_float url = Inl IndexError"
      using extract_coordinates_one[OF u t, of lat rest to_float a] by simp
  qed
qed

theorem C7_witness:
  "extract_coordinates_from_url float_of_digits
     ''https://www.google.com/maps/place/A/@37,144,17z/data=x'' = Inr (37, 144) \<and>
   extract_coordinates_from_url float_of_digits
     ''https://www.google.com/maps/place/A'' = Inl (ValueError ''https:'') \<and>
   extract_coordinates_from_url float_of_digits
     ''https://www.google.com/maps/place/A/@37,x,17z/data=x'' = Inl (ValueError ''x'') \<and>
   extract_coordinates_from_url float_of_digits
     ''https://www.google.com/maps/place/A/@37/data=x'' = Inl IndexError"
proof -
  let ?pre = "''https://www.google.com/maps/place/A''"
  have f: "float_of_digits ''37'' = Some 37" "float_of_digits ''144'' = Some 144"
    "float_of_digits ''https:'' = None" "float_of_digits ''x'' = None"
    by (simp_all add: float_of_digits_def ascii_digit_def digit_value_def)
  have p: "plain ''37''" "plain ''144''" "plain ''https:''" "plain ''x''"
    "ends_piece '',17z/data=x''" "ends_piece ''//www.google.com/maps/place/A''"
    by (simp_all add: plain_def ends_piece_def)
  have t1: "\<not> sublist ''/@'' ''37,144,17z/data=x''" by code_simp
  have t2: "\<not> sublist ''/@'' ?pre" by code_simp
  have t3: "\<not> sublist ''/@'' ''37,x,17z/data=x''" by code_simp
  have t4: "\<not> sublist ''/@'' ''37/data=x''" by code_simp
  have r1: "extract_coordinates_from_url float_of_digits
     ''https://www.google.com/maps/place/A/@37,144,17z/data=x'' = Inr (37, 144)"
    using C7_extract_coordinates[where url = "''https://www.google.com/maps/place/A/@37,144,17z/data=x''"
        and pre = ?pre and tail = "''37,144,17z/data=x''" and lat = "''37''" and lon = "''144''"
        and rest = "'',17z/data=x''" and to_float = float_of_digits and a = 37 and b = 144]
      f p t1 by simp
  have r2: "extract_coordinates_from_url float_of_digits ?pre = Inl (ValueError ''https:'')"
    using C7_extract_coordinates[where url = ?pre and tail = ?pre and lat = "''https:''"
        and rest = "''//www.google.com/maps/place/A''" and to_float = float_of_digits]
      f p t2 by simp
  have r3: "extract_coordinates_from_url float_of_digits
     ''https://www.google.com/maps/place/A/@37,x,17z/data=x'' = Inl (ValueError ''x'')"
    using C7_extract_coordinates[where url = "''https://www.google.com/maps/place/A/@37,x,17z/data=x''"
        and pre = ?pre and tail = "''37,x,17z/data=x''" and lat = "''37''" and lon = "''x''"
        and rest = "'',17z/data=x''" and to_float = float_of_digits and a = 37]
      f p t3 by simp
  have r4: "extract_coordinates_from_url float_of_digits
     ''https://www.google.com/maps/place/A/@37/data=x'' = Inl IndexError"
    using C7_extract_coordinates[where url = "''https://www.google.com/maps/place/A/@37/data=x''"
        and pre = ?pre and tail = "''37/data=x''" and lat = "''37''"
        and rest = "''/data=x''" and to_float = float_of_digits and a = 37]
      f p t4 by simp
  from r1 r2 r3 r4 show ?thesis by (intro conjI)
qed

section \<open>Email discovery: the order of the stages\<close>

subsection \<open>Rules for outcomes with the events added\<close>

lemma marks_simps [simp]:
  "marks [] = []" "marks (ev # evs) = mark_of ev @ marks evs"
  "marks (evs @ evs') = marks evs @ marks evs'"
  by (simp_all add: marks_def)

lemma yieldsI:
  "(\<And>s. \<exists>evs. events (snd (m s)) = events s @ evs \<and> R (fst (m s)) evs) \<Longrightarrow> yields m R"
  by (simp add: yields_def)

lemma yieldsD:
  "yields m R \<Longrightarrow> \<exists>evs. events (snd (m s)) = events s @ evs \<and> R (fst (m s)) evs"
  by (simp add: yields_def)






lemma yields_ask_text: "(\<And>r. R r [Call c]) \<Longrightarrow> yields (ask_text E c) R"
  by (simp add: yields_def ask_text_def split: prod.splits)



lemma yields_try_except:
  assumes m: "yields m P" and h: "\<And>e. yields (h e) (Q e)"
    and r: "\<And>x evs. P (Inr x) evs \<Longrightarrow> R (Inr x) evs"
    and l: "\<And>e evs r evs'. P (Inl e) evs \<Longrightarrow> Q e r evs' \<Longrightarrow> R r (evs @ evs')"
  shows "yields (try_except m h) R"
proof (rule yieldsI)
  fix s
  obtain a s1 where ms: "m s = (a, s1)" by (cases "m s")
  obtain evs where e1: "events s1 = events s @ evs" and p: "P a evs"
    using yieldsD[OF m, of s] ms by auto
  show "\<exists>evs. events (snd (try_except m h s)) = events s @ evs \<and> R (fst (try_except m h s)) evs"
  proof (cases a)
    case (Inr x)
    then show ?thesis using ms e1 p r by (auto simp: try_except_def)
  next
    case (Inl e)
    obtain evs' where e2: "events (snd (h e s1)) = events s1 @ evs'" and q: "Q e (fst (h e s1)) evs'"
      using yieldsD[OF h, of e s1] by blast
    have "try_except m h s = h e s1" using ms Inl by (simp add: try_except_def)
    then show ?thesis using e1 e2 l[OF p[unfolded Inl] q] by auto
  qed
qed


subsection \<open>The stages\<close>

lemmas run_defs = yields_def bnd_def andthen_def act_def log_def ret_def ask_text_def
  try_except_def fresh_handle_def open_handle_def

lemma extract_email_marks:
  "yields (extract_email_from_rendered_text E p) (\<lambda>r evs. marks evs = [])"
  unfolding extract_email_from_rendered_text_def
  by (simp add: run_defs split: prod.splits sum.splits)






subsection \<open>The whole run\<close>

lemma length_contact_urls: "length (contact_urls url) = 7"
  by (simp add: contact_urls_def common_contact_paths_def)








subsection \<open>The result\<close>




subsection \<open>Sample sites\<close>








subsection \<open>The claim\<close>



section \<open>Runs in which the click on a listing fails\<close>

lemma shop_coordinates:
  "extract_coordinates_from_url float_of_digits
     ''https://www.google.com/maps/place/shop/@37,144,17z/data=x'' = Inr (37, 144)"
  by (simp add: extract_coordinates_from_url_def split_def index_def or_raise_def
      float_of_digits_def ascii_digit_def digit_value_def)

lemmas step_defs = bnd_def andthen_def act_def log_def ret_def ask_text_def lift_def
  try_except_def try_finally_def set_field_def get_business_def assign_business_def
  append_business_def

lemma process_listing_shown:
  assumes "i \<noteq> bad"
  shows "process_listing (listing_env bad) page lb pc vw vh ua i s =
           (Inr (),
            s\<lparr>world := i,
              events := events s @
                [Call (Click page i), Call (WaitForTimeout page 5000),
                 Call (InnerText page TitleField), Call (InnerText page AddressField),
                 Call (InnerText page WebsiteField), Call (InnerText page PhoneField),
                 Call (PageUrl page)],
              business := Some (shop_record i),
              business_list := business_list s @ [shop_record i]\<rparr>)"
  using assms unfolding process_listing_def extract_business_details_def
  by (simp add: step_defs listing_env_def shop_coordinates shop_record_def new_Business_def
      or_empty_def truthy_def)

lemma process_listing_click_fails:
  "process_listing (listing_env bad) page lb pc vw vh ua bad s =
     (case business s of
        None \<Rightarrow>
          (Inl (UnboundLocalError ''business''),
           s\<lparr>events := events s @
                [Call (Click page bad), Log (ExtractingError (ExternalError ''click''))]\<rparr>)
      | Some b \<Rightarrow>
          (Inr (),
           s\<lparr>events := events s @
                [Call (Click page bad), Log (ExtractingError (ExternalError ''click''))],
             business_list := business_list s @ [b]\<rparr>))"
  unfolding process_listing_def extract_business_details_def
  by (simp add: step_defs listing_env_def split: option.splits)

lemma scroll_to_load_more_three:
  "scroll_to_load_more (listing_env bad) page 3 10 s =
     (Inr (),
      s\<lparr>events := events s @
         [Call (FindPanel page), Call (LocatorAll page PlaceLinks), Log (Scrolling 3),
          Log (RequiredReached 3 0), Call (LocatorAll page PlaceLinks), Log (FinalCount 3)]\<rparr>)"
  unfolding scroll_to_load_more_def
  by (subst scroll_loop.simps)
     (simp add: step_defs ask_count_def ask_flag_def listing_env_def)

lemma listing_env_save:
  "on_act (listing_env bad) (SaveToExcel f bs) w = (None, w)"
  "on_act (listing_env bad) (SaveToCsv f bs) w = (None, w)"
  by (simp_all add: listing_env_def)

lemma three_listings: "slice_to 3 [0 ..< 3] = [0, 1, 2]"
  by (simp add: slice_to_def upt_rec)

lemma extract_and_save_stale:
  "extract_and_save (listing_env 1) page lb pc vw vh ua 3 3 out_name s =
     (Inr (),
      s\<lparr>world := 2,
        events := events s @
          [Call (Click page 0), Call (WaitForTimeout page 5000),
           Call (InnerText page TitleField), Call (InnerText page AddressField),
           Call (InnerText page WebsiteField), Call (InnerText page PhoneField),
           Call (PageUrl page),
           Call (Click page 1), Log (ExtractingError (ExternalError ''click'')),
           Call (Click page 2), Call (WaitForTimeout page 5000),
           Call (InnerText page TitleField), Call (InnerText page AddressField),
           Call (InnerText page WebsiteField), Call (InnerText page PhoneField),
           Call (PageUrl page),
           Call (SaveToExcel (sanitize_filename out_name)
                  [shop_record 0, shop_record 0, shop_record 2]),
           Call (SaveToCsv (sanitize_filename out_name)
                  [shop_record 0, shop_record 0, shop_record 2])],
        business := Some (shop_record 2),
        business_list := [shop_record 0, shop_record 0, shop_record 2]\<rparr>)"
  unfolding extract_and_save_def three_listings process_listings.simps save_results_def
  by (simp add: andthen_def bnd_def ret_def process_listing_shown process_listing_click_fails
      act_def listing_env_save)

lemma listing_env_oracles:
  "on_count (listing_env bad) c w = (Inr 3, w)"
  "on_flag (listing_env bad) c w = (Inr True, w)"
  "on_act (listing_env bad) StartPlaywright w = (None, w)"
  "on_act (listing_env bad) StopPlaywright w = (None, w)"
  "on_act (listing_env bad) (Launch px) w = (None, w)"
  "on_act (listing_env bad) (NewContext h vw vh ua) w = (None, w)"
  "on_act (listing_env bad) (NewPage h) w = (None, w)"
  "on_act (listing_env bad) (Close h) w = (None, w)"
  "on_act (listing_env bad) (Goto h u t) w = (None, w)"
  "on_act (listing_env bad) (WaitForTimeout h t) w = (None, w)"
  "on_act (listing_env bad) (WaitForSelector h sel t) w = (None, w)"
  "on_act (listing_env bad) (Fill h sel q) w = (None, w)"
  "on_act (listing_env bad) (Press h k) w = (None, w)"
  "on_act (listing_env bad) (Hover h sel) w = (None, w)"
  "on_text (listing_env bad) (InnerText h Body) w = (Inr [], w)"
  by (simp_all add: listing_env_def)

lemmas run_query_defs = scrape_google_maps_def with_browsers_def run_query_def
  open_handle_def fresh_handle_def ask_count_def ipify_url_def

text \<open>
  Claim C4, every record handed to the output files corresponds to exactly one rendered
  listing: it fails in the code.  The variable \<^verbatim>\<open>business\<close> is bound after the click on the
  listing, and the \<^verbatim>\<open>finally\<close> clause appends it whatever happened.  With three listings of
  which the click on the second raises, the record of the first listing is still in
  \<^verbatim>\<open>business\<close> and is appended a second time: both files receive the records of
  \<^verbatim>\<open>shop0\<close>, \<^verbatim>\<open>shop0\<close> and \<^verbatim>\<open>shop2\<close>, and none for \<^verbatim>\<open>shop1\<close>.
\<close>

theorem C4_stale_record:
  "List.map_filter saved_records
     (events (snd (scrape_google_maps (listing_env 1) ''http://proxy.example:8080'' ''user''
        ''secret'' ''Mozilla/5.0'' 3 3 ''Fitzroy'' ''VIC'' (start 0)))) =
   [[shop_record 0, shop_record 0, shop_record 2],
    [shop_record 0, shop_record 0, shop_record 2]]"
  by (simp add: run_query_defs step_defs listing_env_oracles scroll_to_load_more_three
      extract_and_save_stale start_def List.map_filter_def del: One_nat_def)

lemma extract_and_save_unbound:
  assumes "business s = None"
  shows "extract_and_save (listing_env 0) page lb pc vw vh ua 3 3 out_name s =
     (Inl (UnboundLocalError ''business''),
      s\<lparr>events := events s @
           [Call (Click page 0), Log (ExtractingError (ExternalError ''click''))],
        business_list := []\<rparr>)"
  using assms
  unfolding extract_and_save_def three_listings process_listings.simps save_results_def
  by (simp add: andthen_def bnd_def ret_def process_listing_click_fails)

text \<open>
  Claim C3, exactly one record is appended for every listing, also when an exception
  occurs partway through the extraction, and processing moves on to the next listing:
  it fails in the code.  When the click on the first listing raises, \<^verbatim>\<open>business\<close> is not
  yet bound, so the append in the \<^verbatim>\<open>finally\<close> clause raises \<^verbatim>\<open>UnboundLocalError\<close>; this
  leaves the loop and the function, no record is appended for any of the three
  listings, and no file is written.
\<close>

theorem C3_first_click_fails:
  "fst (scrape_google_maps (listing_env 0) ''http://proxy.example:8080'' ''user''
        ''secret'' ''Mozilla/5.0'' 3 3 ''Fitzroy'' ''VIC'' (start 0)) =
     Inl (UnboundLocalError ''business'') \<and>
   business_list (snd (scrape_google_maps (listing_env 0) ''http://proxy.example:8080'' ''user''
        ''secret'' ''Mozilla/5.0'' 3 3 ''Fitzroy'' ''VIC'' (start 0))) = [] \<and>
   List.map_filter saved_records
     (events (snd (scrape_google_maps (listing_env 0) ''http://proxy.example:8080'' ''user''
        ''secret'' ''Mozilla/5.0'' 3 3 ''Fitzroy'' ''VIC'' (start 0)))) = []"
  by (simp add: run_query_defs step_defs listing_env_oracles scroll_to_load_more_three
      extract_and_save_unbound start_def List.map_filter_def)


end
